theory Spec2Isabelle
  imports Main
begin

section \<open>The snake engine of gameLogic.h\<close>

text \<open>
  The class \<open>SnakeGameLogic\<close> keeps the private game data (board, snake, score, food,
  directions, random generator) and two heap-allocated \<open>GameState\<close> buffers. After every
  step \<open>publishState\<close> copies the private data into the write buffer, stores the buffer's
  address in \<open>currentState\<close> and swaps the two buffer pointers. The model keeps the two
  buffers in an explicit store, so that a reader who holds the address of a snapshot
  sees what later steps write to that address.

  The C++ \<open>int\<close> is modelled by \<open>int\<close>; the one addition that can leave the range of a
  32-bit \<open>int\<close> on a run of the game (the score) is a fault of the model. Reads and
  writes of \<open>board[r][c]\<close> outside the vector and \<open>front()\<close> of an empty deque are
  faults as well. The atomic members are modelled by their sequential meaning: the calls
  of a run do not overlap.
\<close>

subsection \<open>Data\<close>

datatype Direction = UP | DOWN | LEFT | RIGHT | NONE

text \<open>\<open>enum CellType { EMPTY = 0, SNAKE = 1, FOOD = 2, WALL = 3 }\<close>; the board stores the
  numbers.\<close>

definition EMPTY :: int where "EMPTY = 0"
definition SNAKE :: int where "SNAKE = 1"
definition FOOD :: int where "FOOD = 2"
definition WALL :: int where "WALL = 3"

datatype fault =
    OutOfRange      \<comment> \<open>\<open>board[r][c]\<close> outside the vector\<close>
  | EmptyDeque      \<comment> \<open>\<open>snake.front()\<close> on an empty deque\<close>
  | LengthError     \<comment> \<open>a vector constructed with a negative size\<close>
  | SignedOverflow  \<comment> \<open>\<open>score += pointsPerFood\<close> leaves the range of \<open>int\<close>\<close>

type_synonym pos = "int \<times> int"
type_synonym grid = "int list list"

record GameState =
  board :: grid
  rows :: int
  cols :: int
  score :: int
  gameOver :: bool
  food :: pos
  foodExists :: bool
  snake :: "pos list"
  snakeLength :: int

text \<open>The two \<open>GameState\<close> objects that the constructor allocates.\<close>

datatype buffer = BufferA | BufferB

text \<open>The generator is the sequence of the numbers it will deliver; a draw of
  \<open>uniform_int_distribution(0, n - 1)\<close> takes the next one modulo \<open>n\<close>.\<close>

type_synonym rng = "nat \<Rightarrow> nat"

record SnakeGameLogic =
  heap :: "buffer \<Rightarrow> GameState"
  currentState :: buffer
  writeBuffer :: buffer
  readBuffer :: buffer
  snake :: "pos list"
  board :: grid
  rows :: int
  cols :: int
  score :: int
  pointsPerFood :: int
  gameOver :: bool
  food :: pos
  foodExists :: bool
  snakeGrowth :: int
  snakeStartingLength :: int
  currentDirection :: Direction
  nextDirection :: Direction
  atomicDirection :: Direction
  rng :: rng

definition INT_MAX :: int where "INT_MAX = 2147483647"
definition INT_MIN :: int where "INT_MIN = - 2147483648"

subsection \<open>Access to the board\<close>

definition inGrid :: "grid \<Rightarrow> pos \<Rightarrow> bool" where
  "inGrid b p \<longleftrightarrow>
     0 \<le> fst p \<and> nat (fst p) < length b \<and> 0 \<le> snd p \<and> nat (snd p) < length (b ! nat (fst p))"

definition cell :: "grid \<Rightarrow> pos \<Rightarrow> int" where
  "cell b p = b ! nat (fst p) ! nat (snd p)"

definition readCell :: "grid \<Rightarrow> pos \<Rightarrow> fault + int" where
  "readCell b p = (if inGrid b p then Inr (cell b p) else Inl OutOfRange)"

definition writeCell :: "grid \<Rightarrow> pos \<Rightarrow> int \<Rightarrow> fault + grid" where
  "writeCell b p v =
     (if inGrid b p then Inr (b[nat (fst p) := (b ! nat (fst p))[nat (snd p) := v]])
      else Inl OutOfRange)"

subsection \<open>Helper methods\<close>

definition isValidDirectionChange :: "SnakeGameLogic \<Rightarrow> Direction \<Rightarrow> bool" where
  "isValidDirectionChange s newDir =
     (if currentDirection s = UP \<and> newDir = DOWN then False
      else if currentDirection s = DOWN \<and> newDir = UP then False
      else if currentDirection s = LEFT \<and> newDir = RIGHT then False
      else if currentDirection s = RIGHT \<and> newDir = LEFT then False
      else True)"

fun stepPos :: "Direction \<Rightarrow> pos \<Rightarrow> pos" where
  "stepPos UP (r, c) = (r - 1, c)"
| "stepPos DOWN (r, c) = (r + 1, c)"
| "stepPos LEFT (r, c) = (r, c - 1)"
| "stepPos RIGHT (r, c) = (r, c + 1)"
| "stepPos NONE (r, c) = (r, c)"

definition getNextHeadPosition :: "SnakeGameLogic \<Rightarrow> fault + pos" where
  "getNextHeadPosition s =
     (case snake s of [] \<Rightarrow> Inl EmptyDeque
      | head # _ \<Rightarrow> Inr (stepPos (currentDirection s) head))"

definition isInBounds :: "SnakeGameLogic \<Rightarrow> int \<Rightarrow> int \<Rightarrow> bool" where
  "isInBounds s r c \<longleftrightarrow> r \<ge> 0 \<and> r < rows s \<and> c \<ge> 0 \<and> c < cols s"

text \<open>The loop of \<open>checkSelfCollision\<close> starts at index 1: the head itself is not
  compared.\<close>

definition checkSelfCollision :: "SnakeGameLogic \<Rightarrow> pos \<Rightarrow> bool" where
  "checkSelfCollision s p \<longleftrightarrow> p \<in> set (drop 1 (snake s))"

definition moveSnake :: "pos \<Rightarrow> SnakeGameLogic \<Rightarrow> fault + SnakeGameLogic" where
  "moveSnake newHead s =
     (case writeCell (board s) newHead SNAKE of
        Inl e \<Rightarrow> Inl e
      | Inr b1 \<Rightarrow>
          if snakeGrowth s > 0
          then Inr (s\<lparr>snake := newHead # snake s, board := b1,
                      snakeGrowth := snakeGrowth s - 1\<rparr>)
          else
            (let tail = last (newHead # snake s) in
             case writeCell b1 tail EMPTY of
               Inl e \<Rightarrow> Inl e
             | Inr b2 \<Rightarrow> Inr (s\<lparr>snake := butlast (newHead # snake s), board := b2\<rparr>)))"

text \<open>The cells \<open>(r, c)\<close> with \<open>0 \<le> r < rows\<close> and \<open>0 \<le> c < cols\<close>, in the order of
  the two nested loops.\<close>

definition allCells :: "int \<Rightarrow> int \<Rightarrow> pos list" where
  "allCells nrows ncols =
     concat (map (\<lambda>r. map (\<lambda>c. (int r, int c)) [0..<nat ncols]) [0..<nat nrows])"

fun collectEmpty :: "grid \<Rightarrow> pos list \<Rightarrow> fault + pos list" where
  "collectEmpty b [] = Inr []"
| "collectEmpty b (p # ps) =
     (case readCell b p of
        Inl e \<Rightarrow> Inl e
      | Inr v \<Rightarrow>
          (case collectEmpty b ps of
             Inl e \<Rightarrow> Inl e
           | Inr es \<Rightarrow> Inr (if v = EMPTY then p # es else es)))"

definition placeRandomFood :: "SnakeGameLogic \<Rightarrow> fault + SnakeGameLogic" where
  "placeRandomFood s =
     (case collectEmpty (board s) (allCells (rows s) (cols s)) of
        Inl e \<Rightarrow> Inl e
      | Inr emptyCells \<Rightarrow>
          if emptyCells = [] then Inr (s\<lparr>foodExists := False\<rparr>)
          else
            (let idx = rng s 0 mod length emptyCells;
                 f = emptyCells ! idx in
             case writeCell (board s) f FOOD of
               Inl e \<Rightarrow> Inl e
             | Inr b \<Rightarrow>
                 Inr (s\<lparr>rng := (\<lambda>i. rng s (Suc i)), food := f, board := b,
                        foodExists := True\<rparr>)))"

text \<open>\<open>placeWalls\<close> is private and has no caller.\<close>

fun placeWalls :: "nat \<Rightarrow> SnakeGameLogic \<Rightarrow> fault + SnakeGameLogic" where
  "placeWalls 0 s = Inr s"
| "placeWalls (Suc n) s =
     (case collectEmpty (board s) (allCells (rows s) (cols s)) of
        Inl e \<Rightarrow> Inl e
      | Inr emptyCells \<Rightarrow>
          if emptyCells \<noteq> [] then
            (case writeCell (board s) (emptyCells ! (rng s 0 mod length emptyCells)) WALL of
               Inl e \<Rightarrow> Inl e
             | Inr b \<Rightarrow> placeWalls n (s\<lparr>rng := (\<lambda>i. rng s (Suc i)), board := b\<rparr>))
          else placeWalls n s)"

subsection \<open>Publishing\<close>

text \<open>The fields are written into the object that \<open>writeBuffer\<close> points to, its address
  is stored in \<open>currentState\<close>, and the two buffer pointers are swapped.\<close>

definition publishState :: "SnakeGameLogic \<Rightarrow> SnakeGameLogic" where
  "publishState s =
     s\<lparr>heap := (heap s)(writeBuffer s :=
           \<lparr>GameState.board = board s, rows = rows s, cols = cols s, score = score s,
            gameOver = gameOver s, food = food s, foodExists = foodExists s,
            snake = snake s, snakeLength = int (length (snake s))\<rparr>),
       currentState := writeBuffer s,
       writeBuffer := readBuffer s,
       readBuffer := writeBuffer s\<rparr>"

subsection \<open>The public interface\<close>

text \<open>The constructor leaves the scalar members as it finds them in memory (the argument
  \<open>mem\<close>); it seeds the generator, clears the pending direction and allocates the two
  buffers, each a value-initialised \<open>GameState\<close>.\<close>

definition emptyGameState :: GameState where
  "emptyGameState =
     \<lparr>GameState.board = [], rows = 0, cols = 0, score = 0, gameOver = False, food = (0, 0),
      foodExists = False, snake = [], snakeLength = 0\<rparr>"

definition construct :: "SnakeGameLogic \<Rightarrow> rng \<Rightarrow> SnakeGameLogic" where
  "construct mem seed =
     mem\<lparr>rng := seed, atomicDirection := NONE,
         snake := [], board := [], food := (0, 0),
         heap := (\<lambda>_. emptyGameState),
         writeBuffer := BufferA, readBuffer := BufferB, currentState := BufferA\<rparr>"

fun segmentPos :: "Direction \<Rightarrow> int \<Rightarrow> int \<Rightarrow> int \<Rightarrow> pos" where
  "segmentPos RIGHT startRow startCol i = (startRow, startCol - i)"
| "segmentPos LEFT startRow startCol i = (startRow, startCol + i)"
| "segmentPos UP startRow startCol i = (startRow + i, startCol)"
| "segmentPos DOWN startRow startCol i = (startRow - i, startCol)"
| "segmentPos NONE startRow startCol i = (startRow, startCol)"

fun layoutSnake :: "Direction \<Rightarrow> int \<Rightarrow> int \<Rightarrow> nat list \<Rightarrow> SnakeGameLogic
    \<Rightarrow> fault + SnakeGameLogic" where
  "layoutSnake d startRow startCol [] s = Inr s"
| "layoutSnake d startRow startCol (i # is) s =
     (let p = segmentPos d startRow startCol (int i) in
      case writeCell (board s) p SNAKE of
        Inl e \<Rightarrow> Inl e
      | Inr b \<Rightarrow> layoutSnake d startRow startCol is (s\<lparr>snake := snake s @ [p], board := b\<rparr>))"

definition initializeBoard :: "int \<Rightarrow> int \<Rightarrow> int \<Rightarrow> int \<Rightarrow> Direction \<Rightarrow> SnakeGameLogic
    \<Rightarrow> fault + SnakeGameLogic" where
  "initializeBoard nrows ncols startingLength ppf initialDirection s =
     (if nrows < 0 \<or> ncols < 0 then Inl LengthError
      else
        (let s1 = s\<lparr>rows := nrows, cols := ncols, snakeStartingLength := startingLength,
                    pointsPerFood := ppf, currentDirection := initialDirection,
                    nextDirection := initialDirection,
                    score := 0, gameOver := False, snakeGrowth := 0, foodExists := False,
                    snake := [],
                    board := replicate (nat nrows) (replicate (nat ncols) EMPTY)\<rparr> in
         case layoutSnake initialDirection (nrows div 2) (ncols div 2)
                [0..<nat startingLength] s1 of
           Inl e \<Rightarrow> Inl e
         | Inr s2 \<Rightarrow>
             (case placeRandomFood s2 of
                Inl e \<Rightarrow> Inl e
              | Inr s3 \<Rightarrow> Inr (publishState s3))))"

definition setDirection :: "Direction \<Rightarrow> SnakeGameLogic \<Rightarrow> SnakeGameLogic" where
  "setDirection newDir s = s\<lparr>atomicDirection := newDir\<rparr>"

text \<open>The first lines of \<open>update\<close> after the game-over test: take and clear the pending
  direction, adopt it unless it is a reversal, and make it current.\<close>

definition takeDirection :: "SnakeGameLogic \<Rightarrow> SnakeGameLogic" where
  "takeDirection s =
     (let inputDir = atomicDirection s;
          s1 = s\<lparr>atomicDirection := NONE\<rparr>;
          s2 = (if inputDir \<noteq> NONE \<and> isValidDirectionChange s1 inputDir
                then s1\<lparr>nextDirection := inputDir\<rparr> else s1)
      in s2\<lparr>currentDirection := nextDirection s2\<rparr>)"

definition endGame :: "SnakeGameLogic \<Rightarrow> fault + bool \<times> SnakeGameLogic" where
  "endGame s = Inr (False, publishState (s\<lparr>gameOver := True\<rparr>))"

text \<open>The food collision of \<open>update\<close>.\<close>

definition eatFood :: "pos \<Rightarrow> SnakeGameLogic \<Rightarrow> fault + SnakeGameLogic" where
  "eatFood newHead s =
     (if foodExists s \<and> newHead = food s then
        (if score s + pointsPerFood s > INT_MAX \<or> score s + pointsPerFood s < INT_MIN
         then Inl SignedOverflow
         else Inr (s\<lparr>snakeGrowth := snakeGrowth s + 1,
                     score := score s + pointsPerFood s,
                     foodExists := False\<rparr>))
      else Inr s)"

definition update :: "SnakeGameLogic \<Rightarrow> fault + bool \<times> SnakeGameLogic" where
  "update s0 =
     (if gameOver s0 then Inr (False, s0)
      else
        (let s = takeDirection s0 in
         case getNextHeadPosition s of
           Inl e \<Rightarrow> Inl e
         | Inr newHead \<Rightarrow>
             if \<not> isInBounds s (fst newHead) (snd newHead) then endGame s
             else
               (case readCell (board s) newHead of
                  Inl e \<Rightarrow> Inl e
                | Inr v \<Rightarrow>
                    if v = WALL then endGame s
                    else if checkSelfCollision s newHead then endGame s
                    else
                      (case eatFood newHead s of
                         Inl e \<Rightarrow> Inl e
                       | Inr s1 \<Rightarrow>
                           (case moveSnake newHead s1 of
                              Inl e \<Rightarrow> Inl e
                            | Inr s2 \<Rightarrow>
                                (case (if \<not> foodExists s2 then placeRandomFood s2
                                       else Inr s2) of
                                   Inl e \<Rightarrow> Inl e
                                 | Inr s3 \<Rightarrow>
                                     if \<not> foodExists s3 \<and> snakeGrowth s3 = 0
                                     then endGame s3
                                     else Inr (True, publishState s3)))))))"

definition getGameState :: "SnakeGameLogic \<Rightarrow> buffer" where
  "getGameState s = currentState s"

text \<open>What a reader finds behind a snapshot pointer.\<close>

definition deref :: "SnakeGameLogic \<Rightarrow> buffer \<Rightarrow> GameState" where
  "deref s p = heap s p"

definition getRows :: "SnakeGameLogic \<Rightarrow> int" where
  "getRows s = GameState.rows (deref s (currentState s))"

definition getCols :: "SnakeGameLogic \<Rightarrow> int" where
  "getCols s = GameState.cols (deref s (currentState s))"

definition getScore :: "SnakeGameLogic \<Rightarrow> int" where
  "getScore s = GameState.score (deref s (currentState s))"

definition isGameOver :: "SnakeGameLogic \<Rightarrow> bool" where
  "isGameOver s = GameState.gameOver (deref s (currentState s))"

definition getCellType :: "SnakeGameLogic \<Rightarrow> int \<Rightarrow> int \<Rightarrow> fault + int" where
  "getCellType s r c =
     (let state = deref s (currentState s) in
      if r \<ge> 0 \<and> r < GameState.rows state \<and> c \<ge> 0 \<and> c < GameState.cols state
      then readCell (GameState.board state) (r, c)
      else Inr WALL)"

subsection \<open>Runs of the public interface\<close>

datatype call = Update | SetDirection Direction

fun step :: "call \<Rightarrow> SnakeGameLogic \<Rightarrow> fault + SnakeGameLogic" where
  "step Update s = (case update s of Inl e \<Rightarrow> Inl e | Inr (alive, s') \<Rightarrow> Inr s')"
| "step (SetDirection d) s = Inr (setDirection d s)"

fun run :: "call list \<Rightarrow> SnakeGameLogic \<Rightarrow> fault + SnakeGameLogic" where
  "run [] s = Inr s"
| "run (c # cs) s = (case step c s of Inl e \<Rightarrow> Inl e | Inr s' \<Rightarrow> run cs s')"

text \<open>A game: the constructor, \<open>initializeBoard\<close>, then the calls.\<close>

definition play :: "int \<Rightarrow> int \<Rightarrow> int \<Rightarrow> int \<Rightarrow> Direction \<Rightarrow> SnakeGameLogic \<Rightarrow> rng
    \<Rightarrow> call list \<Rightarrow> fault + SnakeGameLogic" where
  "play nrows ncols startingLength ppf initialDirection mem seed cs =
     (case initializeBoard nrows ncols startingLength ppf initialDirection (construct mem seed) of
        Inl e \<Rightarrow> Inl e
      | Inr s0 \<Rightarrow> run cs s0)"

text \<open>Some content of the object's memory before the constructor runs, for the examples.\<close>

definition mem0 :: SnakeGameLogic where
  "mem0 =
     \<lparr>heap = (\<lambda>_. emptyGameState), currentState = BufferA, writeBuffer = BufferA,
      readBuffer = BufferA, snake = [], board = [], rows = 7, cols = 7, score = 5,
      pointsPerFood = 0, gameOver = True, food = (0, 0), foodExists = True, snakeGrowth = 3,
      snakeStartingLength = 0, currentDirection = UP, nextDirection = DOWN,
      atomicDirection = LEFT, rng = (\<lambda>_. 0)\<rparr>"

subsection \<open>Invariants of the private data\<close>

text \<open>The board is a vector of \<open>nr\<close> rows of \<open>nc\<close> cells each.\<close>

definition wellShaped :: "grid \<Rightarrow> int \<Rightarrow> int \<Rightarrow> bool" where
  "wellShaped b nr nc \<longleftrightarrow>
     0 \<le> nr \<and> 0 \<le> nc \<and> length b = nat nr \<and> (\<forall>row \<in> set b. length row = nat nc)"

text \<open>Board and snake agree: the snake is not empty, has no cell twice and lies on the
  board, the cells marked \<open>SNAKE\<close> are those of the snake, and the only cell marked
  \<open>FOOD\<close> is the food, when it exists.\<close>

definition core :: "SnakeGameLogic \<Rightarrow> bool" where
  "core s \<longleftrightarrow>
     wellShaped (board s) (rows s) (cols s) \<and>
     snake s \<noteq> [] \<and> distinct (snake s) \<and> (\<forall>p \<in> set (snake s). inGrid (board s) p) \<and>
     (\<forall>p. inGrid (board s) p \<longrightarrow> (cell (board s) p = SNAKE \<longleftrightarrow> p \<in> set (snake s))) \<and>
     (\<forall>p. inGrid (board s) p \<longrightarrow> (cell (board s) p = FOOD \<longleftrightarrow> foodExists s \<and> p = food s)) \<and>
     (foodExists s \<longrightarrow> inGrid (board s) (food s)) \<and>
     (\<forall>p. inGrid (board s) p \<longrightarrow> cell (board s) p \<in> {EMPTY, SNAKE, FOOD})"

text \<open>The value that \<open>publishState\<close> writes.\<close>

definition snapshotOf :: "SnakeGameLogic \<Rightarrow> GameState" where
  "snapshotOf s =
     \<lparr>GameState.board = board s, rows = rows s, cols = cols s, score = score s,
      gameOver = gameOver s, food = food s, foodExists = foodExists s,
      snake = snake s, snakeLength = int (length (snake s))\<rparr>"

text \<open>The snapshot that readers get is the copy of the private data.\<close>

definition published :: "SnakeGameLogic \<Rightarrow> bool" where
  "published s \<longleftrightarrow> deref s (getGameState s) = snapshotOf s"

definition steady :: "SnakeGameLogic \<Rightarrow> bool" where
  "steady s \<longleftrightarrow>
     core s \<and> snakeGrowth s = 0 \<and> currentDirection s = nextDirection s \<and>
     nextDirection s \<noteq> NONE"

definition engineInv :: "SnakeGameLogic \<Rightarrow> bool" where
  "engineInv s \<longleftrightarrow> steady s \<and> published s"

text \<open>After the first \<open>publishState\<close> the published object is the one \<open>readBuffer\<close>
  points to, and the next write goes to the other one.\<close>

definition buffersSwapped :: "SnakeGameLogic \<Rightarrow> bool" where
  "buffersSwapped s \<longleftrightarrow> currentState s = readBuffer s \<and> writeBuffer s \<noteq> readBuffer s"

text \<open>No cell of the board holds \<open>WALL\<close>; the weaker invariant \<open>tidy\<close> holds for every
  initial direction and length.\<close>

definition noWall :: "grid \<Rightarrow> bool" where
  "noWall b \<longleftrightarrow> (\<forall>p. readCell b p \<noteq> Inr WALL)"

definition tidy :: "SnakeGameLogic \<Rightarrow> bool" where
  "tidy s \<longleftrightarrow>
     wellShaped (board s) (rows s) (cols s) \<and> noWall (board s) \<and>
     (\<forall>a. noWall (GameState.board (heap s a))) \<and> published s"

subsection \<open>Notions of the specification\<close>

text \<open>The opposite of a direction, in the words of the specification: Up and Down are
  opposite, Left and Right are; \<open>NONE\<close> has no opposite.\<close>

fun opposite :: "Direction \<Rightarrow> Direction" where
  "opposite UP = DOWN"
| "opposite DOWN = UP"
| "opposite LEFT = RIGHT"
| "opposite RIGHT = LEFT"
| "opposite NONE = NONE"

text \<open>The number of foods eaten during a list of calls: an \<open>update\<close> eats when it is
  called on a live game, passes the three terminal checks and finds the food at the new
  head (the condition of the food collision in \<open>update\<close>).\<close>

definition eats :: "SnakeGameLogic \<Rightarrow> bool" where
  "eats s0 \<longleftrightarrow>
     \<not> gameOver s0 \<and>
     (let s = takeDirection s0 in
      case getNextHeadPosition s of
        Inl _ \<Rightarrow> False
      | Inr newHead \<Rightarrow>
          isInBounds s (fst newHead) (snd newHead) \<and>
          (case readCell (board s) newHead of Inl _ \<Rightarrow> False | Inr v \<Rightarrow> v \<noteq> WALL) \<and>
          \<not> checkSelfCollision s newHead \<and> foodExists s \<and> newHead = food s)"

fun foodsEaten :: "call list \<Rightarrow> SnakeGameLogic \<Rightarrow> nat" where
  "foodsEaten [] s = 0"
| "foodsEaten (c # cs) s =
     (case step c s of
        Inl _ \<Rightarrow> 0
      | Inr s' \<Rightarrow> (if c = Update \<and> eats s then 1 else 0) + foodsEaten cs s')"

section \<open>Properties of the model\<close>

subsection \<open>The board\<close>

lemma inGrid_wellShaped:
  "wellShaped b nr nc \<Longrightarrow> inGrid b p \<longleftrightarrow> 0 \<le> fst p \<and> fst p < nr \<and> 0 \<le> snd p \<and> snd p < nc"
  by (auto simp: wellShaped_def inGrid_def)

lemma wellShaped_replicate:
  "0 \<le> nr \<Longrightarrow> 0 \<le> nc \<Longrightarrow> wellShaped (replicate (nat nr) (replicate (nat nc) v)) nr nc"
  by (simp add: wellShaped_def)

lemma cell_replicate:
  "inGrid (replicate n (replicate m v)) p \<Longrightarrow> cell (replicate n (replicate m v)) p = v"
  by (auto simp: inGrid_def cell_def)

lemma writeCell_Inr_iff:
  "writeCell b p v = Inr b' \<longleftrightarrow>
     inGrid b p \<and> b' = b[nat (fst p) := (b ! nat (fst p))[nat (snd p) := v]]"
  by (auto simp: writeCell_def)

lemma writeCell_inGrid:
  "writeCell b p v = Inr b' \<Longrightarrow> inGrid b' q = inGrid b q"
  by (auto simp: writeCell_Inr_iff inGrid_def nth_list_update)

lemma writeCell_cell:
  "writeCell b p v = Inr b' \<Longrightarrow> inGrid b q \<Longrightarrow> cell b' q = (if q = p then v else cell b q)"
  by (cases p; cases q) (auto simp: writeCell_Inr_iff inGrid_def cell_def nth_list_update)

lemma writeCell_wellShaped:
  "writeCell b p v = Inr b' \<Longrightarrow> wellShaped b nr nc \<Longrightarrow> wellShaped b' nr nc"
  by (auto simp: writeCell_Inr_iff wellShaped_def inGrid_def dest!: set_update_subset_insert [THEN subsetD])

lemma writeCell_total: "inGrid b p \<Longrightarrow> \<exists>b'. writeCell b p v = Inr b'"
  by (simp add: writeCell_def)

lemma readCell_Inr_iff: "readCell b p = Inr v \<longleftrightarrow> inGrid b p \<and> v = cell b p"
  by (auto simp: readCell_def)

lemma collectEmpty_filter:
  "\<forall>p \<in> set ps. inGrid b p \<Longrightarrow> collectEmpty b ps = Inr (filter (\<lambda>p. cell b p = EMPTY) ps)"
  by (induction ps) (auto simp: readCell_def)

lemma collectEmpty_Inr:
  "collectEmpty b ps = Inr es \<Longrightarrow> es = filter (\<lambda>p. cell b p = EMPTY) ps \<and> (\<forall>p \<in> set ps. inGrid b p)"
  by (induction ps arbitrary: es) (auto simp: readCell_def split: sum.splits if_splits)

lemma set_allCells:
  "set (allCells nr nc) = {p. 0 \<le> fst p \<and> fst p < nr \<and> 0 \<le> snd p \<and> snd p < nc}"
proof -
  have "\<And>a b. 0 \<le> a \<Longrightarrow> a < nr \<Longrightarrow> 0 \<le> b \<Longrightarrow> b < nc \<Longrightarrow>
      \<exists>x\<in>{0..<nat nr}. (a, b) \<in>  (\<lambda>c. (int x, int c)) ` {0..<nat nc}"
    subgoal for a b
      by (rule bexI [of _ "nat a"]) (auto simp: image_iff intro!: bexI [of _ "nat b"])
    done
  then show ?thesis
    by (auto simp: allCells_def)
qed

lemma allCells_inGrid:
  "wellShaped b nr nc \<Longrightarrow> p \<in> set (allCells nr nc) \<longleftrightarrow> inGrid b p"
  by (simp add: set_allCells inGrid_wellShaped)

lemma cell_values_distinct [simp]:
  "EMPTY \<noteq> SNAKE" "EMPTY \<noteq> FOOD" "EMPTY \<noteq> WALL" "SNAKE \<noteq> EMPTY" "SNAKE \<noteq> FOOD"
  "SNAKE \<noteq> WALL" "FOOD \<noteq> EMPTY" "FOOD \<noteq> SNAKE" "FOOD \<noteq> WALL" "WALL \<noteq> EMPTY"
  "WALL \<noteq> SNAKE" "WALL \<noteq> FOOD"
  by (simp_all add: EMPTY_def SNAKE_def FOOD_def WALL_def)

subsection \<open>Board and snake\<close>

lemma core_shape: "core s \<Longrightarrow> wellShaped (board s) (rows s) (cols s)"
  unfolding core_def by blast

lemma core_snake_inGrid: "core s \<Longrightarrow> p \<in> set (snake s) \<Longrightarrow> inGrid (board s) p"
  unfolding core_def by blast

lemma core_snake_cell:
  "core s \<Longrightarrow> inGrid (board s) p \<Longrightarrow> (cell (board s) p = SNAKE) = (p \<in> set (snake s))"
  unfolding core_def by blast

lemma core_food_cell:
  "core s \<Longrightarrow> inGrid (board s) p \<Longrightarrow> (cell (board s) p = FOOD) = (foodExists s \<and> p = food s)"
  unfolding core_def by blast

lemma core_food_inGrid: "core s \<Longrightarrow> foodExists s \<Longrightarrow> inGrid (board s) (food s)"
  unfolding core_def by blast

lemma core_snake: "core s \<Longrightarrow> snake s \<noteq> [] \<and> distinct (snake s)"
  unfolding core_def by blast

lemma core_values:
  "core s \<Longrightarrow> inGrid (board s) p \<Longrightarrow>
     cell (board s) p = EMPTY \<or> cell (board s) p = SNAKE \<or> cell (board s) p = FOOD"
  unfolding core_def by blast

lemma coreI:
  assumes "wellShaped (board s) (rows s) (cols s)"
    and "snake s \<noteq> []" and "distinct (snake s)"
    and "\<And>p. p \<in> set (snake s) \<Longrightarrow> inGrid (board s) p"
    and "\<And>p. inGrid (board s) p \<Longrightarrow> (cell (board s) p = SNAKE) = (p \<in> set (snake s))"
    and "\<And>p. inGrid (board s) p \<Longrightarrow> (cell (board s) p = FOOD) = (foodExists s \<and> p = food s)"
    and "foodExists s \<Longrightarrow> inGrid (board s) (food s)"
    and "\<And>p. inGrid (board s) p \<Longrightarrow>
           cell (board s) p = EMPTY \<or> cell (board s) p = SNAKE \<or> cell (board s) p = FOOD"
  shows "core s"
  unfolding core_def using assms by blast

lemma core_cong:
  "board s' = board s \<Longrightarrow> rows s' = rows s \<Longrightarrow> cols s' = cols s \<Longrightarrow> snake s' = snake s \<Longrightarrow>
   food s' = food s \<Longrightarrow> foodExists s' = foodExists s \<Longrightarrow> core s' = core s"
  by (simp only: core_def)

lemma set_butlast_distinct:
  "distinct xs \<Longrightarrow> xs \<noteq> [] \<Longrightarrow> set (butlast xs) = set xs - {last xs}"
proof -
  assume d: "distinct xs" and n: "xs \<noteq> []"
  have "distinct (butlast xs @ [last xs])" using d n by simp
  then have "last xs \<notin> set (butlast xs)" by simp
  moreover have "set xs = set (butlast xs @ [last xs])" using n by simp
  ultimately show ?thesis by auto
qed

lemma eatFood_cases:
  "eatFood h s = Inr s1 \<Longrightarrow>
     (foodExists s \<and> h = food s \<and>
        s1 = s\<lparr>snakeGrowth := snakeGrowth s + 1, score := score s + pointsPerFood s,
               foodExists := False\<rparr>) \<or>
     (\<not> (foodExists s \<and> h = food s) \<and> s1 = s)"
  by (auto simp: eatFood_def split: if_splits)

lemma move_eating_core:
  assumes c: "core s" and g: "inGrid (board s) h" and n: "h \<notin> set (snake s)"
    and f: "foodExists s" "h = food s"
    and m: "moveSnake h (s\<lparr>snakeGrowth := 1, score := sc, foodExists := False\<rparr>) = Inr s2"
  shows "core s2 \<and> \<not> foodExists s2 \<and> snake s2 = h # snake s \<and> snakeGrowth s2 = 0"
proof -
  obtain b1 where w: "writeCell (board s) h SNAKE = Inr b1"
    and s2: "s2 = s\<lparr>snakeGrowth := 0, score := sc, foodExists := False,
                     snake := h # snake s, board := b1\<rparr>"
    using m by (auto simp: moveSnake_def split: sum.splits)
  have shape: "wellShaped b1 (rows s) (cols s)"
    using c w by (auto simp: core_def intro: writeCell_wellShaped)
  have ig: "\<And>q. inGrid b1 q = inGrid (board s) q" using w by (rule writeCell_inGrid)
  have cl: "\<And>q. inGrid (board s) q \<Longrightarrow> cell b1 q = (if q = h then SNAKE else cell (board s) q)"
    using w by (rule writeCell_cell)
  have "core s2"
  proof (rule coreI)
    show "wellShaped (board s2) (rows s2) (cols s2)" using shape by (simp add: s2)
    show "snake s2 \<noteq> []" by (simp add: s2)
    show "distinct (snake s2)" using n core_snake [OF c] by (simp add: s2)
    show "inGrid (board s2) p" if "p \<in> set (snake s2)" for p
      using that g core_snake_inGrid [OF c, of p] by (auto simp: s2 ig)
    show "(cell (board s2) p = SNAKE) = (p \<in> set (snake s2))" if "inGrid (board s2) p" for p
      using that core_snake_cell [OF c, of p] by (simp add: s2 ig cl)
    show "(cell (board s2) p = FOOD) = (foodExists s2 \<and> p = food s2)"
      if "inGrid (board s2) p" for p
      using that core_food_cell [OF c, of p] f by (simp add: s2 ig cl)
    show "inGrid (board s2) (food s2)" if "foodExists s2" using that by (simp add: s2)
    show "cell (board s2) p = EMPTY \<or> cell (board s2) p = SNAKE \<or> cell (board s2) p = FOOD"
      if "inGrid (board s2) p" for p
      using that core_values [OF c, of p] by (simp add: s2 ig cl)
  qed
  then show ?thesis by (simp add: s2)
qed

lemma move_plain_core:
  assumes c: "core s" and g: "inGrid (board s) h" and n: "h \<notin> set (snake s)"
    and f: "\<not> (foodExists s \<and> h = food s)" and gr: "snakeGrowth s = 0"
    and m: "moveSnake h s = Inr s2"
  shows "core s2 \<and> foodExists s2 = foodExists s \<and> snake s2 = h # butlast (snake s) \<and>
         snakeGrowth s2 = 0 \<and> score s2 = score s"
proof -
  have ne: "snake s \<noteq> []" and d: "distinct (snake s)" using c by (simp_all add: core_def)
  let ?t = "last (snake s)"
  obtain b1 b2 where w1: "writeCell (board s) h SNAKE = Inr b1"
    and w2: "writeCell b1 ?t EMPTY = Inr b2"
    and s2: "s2 = s\<lparr>snake := h # butlast (snake s), board := b2\<rparr>"
    using m gr ne by (auto simp: moveSnake_def Let_def split: sum.splits)
  have t_in: "?t \<in> set (snake s)" using ne by simp
  have t_h: "?t \<noteq> h" using t_in n by auto
  have sb: "set (butlast (snake s)) = set (snake s) - {?t}"
    using d ne by (rule set_butlast_distinct)
  have shape: "wellShaped b2 (rows s) (cols s)"
    using c w1 w2 by (auto simp: core_def intro: writeCell_wellShaped)
  have ig: "\<And>q. inGrid b2 q = inGrid (board s) q"
    using w1 w2 by (simp add: writeCell_inGrid)
  have cl: "\<And>q. inGrid (board s) q \<Longrightarrow>
      cell b2 q = (if q = ?t then EMPTY else if q = h then SNAKE else cell (board s) q)"
    using w1 w2 by (simp add: writeCell_cell writeCell_inGrid)
  have tf: "food s \<noteq> ?t" if fe: "foodExists s"
  proof
    assume e: "food s = ?t"
    have "inGrid (board s) ?t" using c t_in by (rule core_snake_inGrid)
    then have "cell (board s) ?t = SNAKE" using c t_in by (simp add: core_snake_cell)
    moreover have "cell (board s) (food s) = FOOD"
      using c fe by (simp add: core_food_cell core_food_inGrid)
    ultimately show False using e by simp
  qed
  have "core s2"
  proof (rule coreI)
    show "wellShaped (board s2) (rows s2) (cols s2)" using shape by (simp add: s2)
    show "snake s2 \<noteq> []" by (simp add: s2)
    show "distinct (snake s2)" using n d by (simp add: s2 sb distinct_butlast)
    show "inGrid (board s2) p" if "p \<in> set (snake s2)" for p
      using that g core_snake_inGrid [OF c, of p] by (auto simp: s2 ig sb)
    show "(cell (board s2) p = SNAKE) = (p \<in> set (snake s2))" if "inGrid (board s2) p" for p
      using that core_snake_cell [OF c, of p] t_h by (auto simp: s2 ig cl sb)
    show "(cell (board s2) p = FOOD) = (foodExists s2 \<and> p = food s2)"
      if "inGrid (board s2) p" for p
      using that core_food_cell [OF c, of p] f tf by (auto simp: s2 ig cl)
    show "inGrid (board s2) (food s2)" if "foodExists s2"
      using that core_food_inGrid [OF c] by (simp add: s2 ig)
    show "cell (board s2) p = EMPTY \<or> cell (board s2) p = SNAKE \<or> cell (board s2) p = FOOD"
      if "inGrid (board s2) p" for p
      using that core_values [OF c, of p] by (simp add: s2 ig cl)
  qed
  then show ?thesis by (simp add: s2 gr)
qed

lemma placeRandomFood_core:
  assumes c: "core s" and nf: "\<not> foodExists s"
  shows "\<exists>s'. placeRandomFood s = Inr s' \<and> core s' \<and> snake s' = snake s \<and>
           (foodExists s' \<longrightarrow> cell (board s) (food s') = EMPTY \<and> inGrid (board s) (food s')) \<and>
           (\<not> foodExists s' \<longrightarrow> s' = s \<and> (\<forall>p. inGrid (board s) p \<longrightarrow> cell (board s) p \<noteq> EMPTY))"
proof -
  let ?b = "board s"
  let ?es = "filter (\<lambda>p. cell ?b p = EMPTY) (allCells (rows s) (cols s))"
  have shape: "wellShaped ?b (rows s) (cols s)" using c by (simp add: core_def)
  have ce: "collectEmpty ?b (allCells (rows s) (cols s)) = Inr ?es"
    by (rule collectEmpty_filter) (simp add: allCells_inGrid [OF shape])
  show ?thesis
  proof (cases "?es = []")
    case True
    then have "\<forall>p. inGrid ?b p \<longrightarrow> cell ?b p \<noteq> EMPTY"
      by (auto simp: filter_empty_conv allCells_inGrid [OF shape])
    moreover have e: "s\<lparr>foodExists := False\<rparr> = s" using nf by simp
    moreover have "core (s\<lparr>foodExists := False\<rparr>)" by (subst e) (rule c)
    ultimately show ?thesis using True nf by (simp add: placeRandomFood_def ce)
  next
    case False
    let ?f = "?es ! (rng s 0 mod length ?es)"
    have "rng s 0 mod length ?es < length ?es" using False by simp
    then have "?f \<in> set ?es" by (rule nth_mem)
    then have fg: "inGrid ?b ?f" and fe: "cell ?b ?f = EMPTY"
      by (simp_all add: allCells_inGrid [OF shape])
    obtain b' where w: "writeCell ?b ?f FOOD = Inr b'"
      using writeCell_total [OF fg] by blast
    let ?s' = "s\<lparr>rng := (\<lambda>i. rng s (Suc i)), food := ?f, board := b', foodExists := True\<rparr>"
    have p: "placeRandomFood s = Inr ?s'"
      using False w by (simp add: placeRandomFood_def ce Let_def)
    have shape': "wellShaped b' (rows s) (cols s)"
      using w shape by (rule writeCell_wellShaped)
    have ig: "\<And>q. inGrid b' q = inGrid ?b q" using w by (rule writeCell_inGrid)
    have cl: "\<And>q. inGrid ?b q \<Longrightarrow> cell b' q = (if q = ?f then FOOD else cell ?b q)"
      using w by (rule writeCell_cell)
    have fs: "?f \<notin> set (snake s)" using core_snake_cell [OF c fg] fe by simp
    have "core ?s'"
    proof (rule coreI)
      show "wellShaped (board ?s') (rows ?s') (cols ?s')" using shape' by simp
      show "snake ?s' \<noteq> []" "distinct (snake ?s')" using core_snake [OF c] by simp_all
      show "inGrid (board ?s') p" if "p \<in> set (snake ?s')" for p
        using that core_snake_inGrid [OF c, of p] by (simp add: ig)
      show "(cell (board ?s') p = SNAKE) = (p \<in> set (snake ?s'))"
        if "inGrid (board ?s') p" for p
        using that core_snake_cell [OF c, of p] fs by (auto simp: ig cl)
      show "(cell (board ?s') p = FOOD) = (foodExists ?s' \<and> p = food ?s')"
        if "inGrid (board ?s') p" for p
        using that core_food_cell [OF c, of p] nf by (simp add: ig cl)
      show "inGrid (board ?s') (food ?s')" if "foodExists ?s'" using fg by (simp add: ig)
      show "cell (board ?s') p = EMPTY \<or> cell (board ?s') p = SNAKE \<or> cell (board ?s') p = FOOD"
        if "inGrid (board ?s') p" for p
        using that core_values [OF c, of p] by (simp add: ig cl)
    qed
    then show ?thesis using p fg fe by simp
  qed
qed

subsection \<open>Publishing and the pending direction\<close>

lemma publishState_private [simp]:
  "snake (publishState s) = snake s" "board (publishState s) = board s"
  "rows (publishState s) = rows s" "cols (publishState s) = cols s"
  "score (publishState s) = score s" "pointsPerFood (publishState s) = pointsPerFood s"
  "gameOver (publishState s) = gameOver s" "food (publishState s) = food s"
  "foodExists (publishState s) = foodExists s" "snakeGrowth (publishState s) = snakeGrowth s"
  "snakeStartingLength (publishState s) = snakeStartingLength s"
  "currentDirection (publishState s) = currentDirection s"
  "nextDirection (publishState s) = nextDirection s"
  "atomicDirection (publishState s) = atomicDirection s"
  "rng (publishState s) = rng s"
  by (simp_all add: publishState_def)

lemma publishState_snapshot:
  "deref (publishState s) (getGameState (publishState s)) = snapshotOf s"
  by (simp add: publishState_def deref_def getGameState_def snapshotOf_def)

lemma snapshotOf_publishState [simp]: "snapshotOf (publishState s) = snapshotOf s"
  by (simp add: snapshotOf_def)

lemma core_publishState [simp]: "core (publishState s) = core s"
  by (rule core_cong) simp_all

lemma steady_publishState [simp]: "steady (publishState s) = steady s"
  by (simp add: steady_def)

lemma engineInv_publishState: "steady s \<Longrightarrow> engineInv (publishState s)"
  by (simp add: engineInv_def published_def publishState_snapshot)

lemma takeDirection_private [simp]:
  "snake (takeDirection s) = snake s" "board (takeDirection s) = board s"
  "rows (takeDirection s) = rows s" "cols (takeDirection s) = cols s"
  "score (takeDirection s) = score s" "pointsPerFood (takeDirection s) = pointsPerFood s"
  "gameOver (takeDirection s) = gameOver s" "food (takeDirection s) = food s"
  "foodExists (takeDirection s) = foodExists s" "snakeGrowth (takeDirection s) = snakeGrowth s"
  "snakeStartingLength (takeDirection s) = snakeStartingLength s"
  "rng (takeDirection s) = rng s" "heap (takeDirection s) = heap s"
  "currentState (takeDirection s) = currentState s"
  "writeBuffer (takeDirection s) = writeBuffer s" "readBuffer (takeDirection s) = readBuffer s"
  "atomicDirection (takeDirection s) = NONE"
  by (simp_all add: takeDirection_def Let_def)

lemma takeDirection_directions:
  "currentDirection (takeDirection s) = nextDirection (takeDirection s)"
  "nextDirection (takeDirection s) =
     (if atomicDirection s \<noteq> NONE \<and> isValidDirectionChange s (atomicDirection s)
      then atomicDirection s else nextDirection s)"
  by (simp_all add: takeDirection_def Let_def isValidDirectionChange_def)

lemma core_takeDirection [simp]: "core (takeDirection s) = core s"
  by (rule core_cong) simp_all

lemma steady_takeDirection: "steady s \<Longrightarrow> steady (takeDirection s)"
  by (simp add: steady_def takeDirection_directions)

lemma core_gameOver [simp]: "core (s\<lparr>gameOver := b\<rparr>) = core s"
  by (rule core_cong) simp_all

lemma steady_gameOver [simp]: "steady (s\<lparr>gameOver := b\<rparr>) = steady s"
  by (simp add: steady_def)

lemma stepPos_moves: "d \<noteq> NONE \<Longrightarrow> stepPos d p \<noteq> p"
  by (cases d; cases p) simp_all

lemma inGrid_isInBounds:
  "wellShaped (board s) (rows s) (cols s) \<Longrightarrow> inGrid (board s) p = isInBounds s (fst p) (snd p)"
  by (auto simp: inGrid_wellShaped isInBounds_def)

subsection \<open>The stages of an update\<close>

lemma moveSnake_cases:
  "moveSnake h s = Inr s2 \<Longrightarrow>
     \<exists>b1. writeCell (board s) h SNAKE = Inr b1 \<and>
       (snakeGrowth s > 0 \<and>
          s2 = s\<lparr>snake := h # snake s, board := b1, snakeGrowth := snakeGrowth s - 1\<rparr> \<or>
        \<not> snakeGrowth s > 0 \<and>
          (\<exists>b2. writeCell b1 (last (h # snake s)) EMPTY = Inr b2 \<and>
             s2 = s\<lparr>snake := butlast (h # snake s), board := b2\<rparr>))"
  by (auto simp: moveSnake_def Let_def split: sum.splits if_splits)

lemma placeRandomFood_cases:
  "placeRandomFood s = Inr s' \<Longrightarrow>
     \<exists>es. collectEmpty (board s) (allCells (rows s) (cols s)) = Inr es \<and>
       (es = [] \<and> s' = s\<lparr>foodExists := False\<rparr> \<or>
        es \<noteq> [] \<and>
          (\<exists>b. writeCell (board s) (es ! (rng s 0 mod length es)) FOOD = Inr b \<and>
             s' = s\<lparr>rng := (\<lambda>i. rng s (Suc i)), food := es ! (rng s 0 mod length es),
                    board := b, foodExists := True\<rparr>))"
  by (auto simp: placeRandomFood_def Let_def split: sum.splits if_splits)

text \<open>The stages of a successful \<open>update\<close> on a live game.\<close>

lemma update_cases:
  assumes "\<not> gameOver s" and "update s = Inr (alive, s')"
  obtains (terminal) h where "getNextHeadPosition (takeDirection s) = Inr h"
      and "\<not> isInBounds (takeDirection s) (fst h) (snd h) \<or>
           readCell (board s) h = Inr WALL \<or> checkSelfCollision (takeDirection s) h"
      and "\<not> alive" and "s' = publishState (takeDirection s\<lparr>gameOver := True\<rparr>)"
    | (moved) h s1 s2 s3 where "getNextHeadPosition (takeDirection s) = Inr h"
      and "isInBounds (takeDirection s) (fst h) (snd h)"
      and "inGrid (board s) h" and "cell (board s) h \<noteq> WALL"
      and "\<not> checkSelfCollision (takeDirection s) h"
      and "eatFood h (takeDirection s) = Inr s1" and "moveSnake h s1 = Inr s2"
      and "(if \<not> foodExists s2 then placeRandomFood s2 else Inr s2) = Inr s3"
      and "alive = (\<not> (\<not> foodExists s3 \<and> snakeGrowth s3 = 0))"
      and "s' = publishState (if alive then s3 else s3\<lparr>gameOver := True\<rparr>)"
  using assms
  by (auto simp: update_def endGame_def readCell_def Let_def split: sum.splits if_splits)

lemma update_frame:
  assumes live: "\<not> gameOver s" and u: "update s = Inr (alive, s')"
  shows "rows s' = rows s \<and> cols s' = cols s \<and> pointsPerFood s' = pointsPerFood s \<and>
         snakeStartingLength s' = snakeStartingLength s \<and>
         currentDirection s' = nextDirection (takeDirection s) \<and>
         nextDirection s' = nextDirection (takeDirection s) \<and> atomicDirection s' = NONE"
  using live u
proof (cases rule: update_cases)
  case (terminal h)
  then show ?thesis by (simp add: takeDirection_directions(1))
next
  case (moved h s1 s2 s3)
  let ?t = "takeDirection s"
  let ?P = "\<lambda>x. rows x = rows s \<and> cols x = cols s \<and> pointsPerFood x = pointsPerFood s \<and>
         snakeStartingLength x = snakeStartingLength s \<and>
         currentDirection x = nextDirection ?t \<and>
         nextDirection x = nextDirection ?t \<and> atomicDirection x = NONE"
  have "?P ?t" by (simp add: takeDirection_directions(1))
  then have "?P s1" using eatFood_cases [OF moved(6)] by auto
  then have "?P s2" using moveSnake_cases [OF moved(7)] by auto
  then have "?P s3"
  proof (cases "foodExists s2")
    case True
    then show ?thesis using moved(8) \<open>?P s2\<close> by simp
  next
    case False
    then have "placeRandomFood s2 = Inr s3" using moved(8) by simp
    from placeRandomFood_cases [OF this] \<open>?P s2\<close> show ?thesis by auto
  qed
  then show ?thesis by (simp add: moved(10))
qed

subsection \<open>The invariant along a game\<close>

lemma update_steady:
  assumes st: "steady s" and u: "update s = Inr (alive, s')"
  shows "(gameOver s \<and> s' = s \<or> engineInv s') \<and> steady s'
         \<and> rows s' = rows s \<and> cols s' = cols s
         \<and> pointsPerFood s' = pointsPerFood s \<and> snakeStartingLength s' = snakeStartingLength s"
proof (cases "gameOver s")
  case True
  then show ?thesis using u st by (simp add: update_def)
next
  case live: False
  define t where "t = takeDirection s"
  have stt: "steady t" unfolding t_def using st by (rule steady_takeDirection)
  then have c: "core t" and gr: "snakeGrowth t = 0" and dn: "currentDirection t \<noteq> NONE"
    by (simp_all add: steady_def)
  have shape: "wellShaped (board t) (rows t) (cols t)" using c by (rule core_shape)
  obtain h0 rest where sn: "snake t = h0 # rest"
    using core_snake [OF c] by (cases "snake t") auto
  define h where "h = stepPos (currentDirection t) h0"
  have gh: "getNextHeadPosition t = Inr h" by (simp add: getNextHeadPosition_def sn h_def)
  have hh: "h \<noteq> h0" unfolding h_def using dn by (rule stepPos_moves)
  have fin: "engineInv s'' \<and> steady s'' \<and> rows s'' = rows s \<and> cols s'' = cols s
         \<and> pointsPerFood s'' = pointsPerFood s \<and> snakeStartingLength s'' = snakeStartingLength s"
    if "endGame x = Inr (a, s'')" "steady x" "rows x = rows s" "cols x = cols s"
      "pointsPerFood x = pointsPerFood s" "snakeStartingLength x = snakeStartingLength s"
    for x a s''
    using that by (auto simp: endGame_def intro: engineInv_publishState)
  have tf: "rows t = rows s" "cols t = cols s" "pointsPerFood t = pointsPerFood s"
    "snakeStartingLength t = snakeStartingLength s" by (simp_all add: t_def)
  show ?thesis
  proof (cases "isInBounds t (fst h) (snd h) \<and> cell (board t) h \<noteq> WALL \<and> \<not> checkSelfCollision t h")
    case False
    then have "endGame t = Inr (alive, s')"
      using u live gh inGrid_isInBounds [OF shape, of h]
      by (auto simp: update_def t_def [symmetric] readCell_def split: if_splits)
    from fin [OF this stt tf] show ?thesis by simp
  next
    case True
    then have ig: "inGrid (board t) h" using inGrid_isInBounds [OF shape, of h] by simp
    have hn: "h \<notin> set (snake t)" using True hh by (simp add: checkSelfCollision_def sn)
    obtain s1 s2 s3 where e: "eatFood h t = Inr s1" and m: "moveSnake h s1 = Inr s2"
      and p: "(if \<not> foodExists s2 then placeRandomFood s2 else Inr s2) = Inr s3"
      and r: "(if \<not> foodExists s3 \<and> snakeGrowth s3 = 0 then endGame s3
               else Inr (True, publishState s3)) = Inr (alive, s')"
      using u live gh True ig
      by (simp add: update_def t_def [symmetric] readCell_def split: sum.splits)
    have s2p: "core s2 \<and> snakeGrowth s2 = 0 \<and> rows s2 = rows s \<and> cols s2 = cols s
         \<and> pointsPerFood s2 = pointsPerFood s \<and> snakeStartingLength s2 = snakeStartingLength s
         \<and> currentDirection s2 = currentDirection t \<and> nextDirection s2 = nextDirection t"
    proof (cases "foodExists t \<and> h = food t")
      case True
      then have s1: "s1 = t\<lparr>snakeGrowth := 1, score := score t + pointsPerFood t,
                             foodExists := False\<rparr>"
        using eatFood_cases [OF e] gr by auto
      have "core s2 \<and> \<not> foodExists s2 \<and> snake s2 = h # snake t \<and> snakeGrowth s2 = 0"
        using c ig hn True m [unfolded s1] by (intro move_eating_core) auto
      moreover have "rows s2 = rows s \<and> cols s2 = cols s
         \<and> pointsPerFood s2 = pointsPerFood s \<and> snakeStartingLength s2 = snakeStartingLength s
         \<and> currentDirection s2 = currentDirection t \<and> nextDirection s2 = nextDirection t"
        using m tf by (auto simp: s1 moveSnake_def Let_def split: sum.splits if_splits)
      ultimately show ?thesis by simp
    next
      case False
      then have s1: "s1 = t" using eatFood_cases [OF e] by auto
      have "core s2 \<and> foodExists s2 = foodExists t \<and> snake s2 = h # butlast (snake t) \<and>
         snakeGrowth s2 = 0 \<and> score s2 = score t"
        using c ig hn False gr m [unfolded s1] by (rule move_plain_core)
      moreover have "rows s2 = rows s \<and> cols s2 = cols s
         \<and> pointsPerFood s2 = pointsPerFood s \<and> snakeStartingLength s2 = snakeStartingLength s
         \<and> currentDirection s2 = currentDirection t \<and> nextDirection s2 = nextDirection t"
        using m tf by (auto simp: s1 moveSnake_def Let_def split: sum.splits if_splits)
      ultimately show ?thesis by simp
    qed
    have s3p: "steady s3 \<and> rows s3 = rows s \<and> cols s3 = cols s
         \<and> pointsPerFood s3 = pointsPerFood s \<and> snakeStartingLength s3 = snakeStartingLength s"
    proof (cases "foodExists s2")
      case True
      then have "s3 = s2" using p by simp
      then show ?thesis using s2p stt by (simp add: steady_def)
    next
      case False
      obtain x where x: "placeRandomFood s2 = Inr x" "core x" 
        using placeRandomFood_core [of s2] s2p False by blast
      then have "s3 = x" using p False by simp
      moreover have "snakeGrowth x = snakeGrowth s2 \<and> rows x = rows s2 \<and> cols x = cols s2
         \<and> pointsPerFood x = pointsPerFood s2 \<and> snakeStartingLength x = snakeStartingLength s2
         \<and> currentDirection x = currentDirection s2 \<and> nextDirection x = nextDirection s2"
        using x(1) by (auto simp: placeRandomFood_def Let_def split: sum.splits if_splits)
      ultimately show ?thesis using s2p stt x(2) by (simp add: steady_def)
    qed
    show ?thesis
    proof (cases "\<not> foodExists s3 \<and> snakeGrowth s3 = 0")
      case True
      then have "endGame s3 = Inr (alive, s')" using r by simp
      from fin [OF this] s3p show ?thesis by simp
    next
      case False
      then have "s' = publishState s3" using r by auto
      then show ?thesis using s3p by (simp add: engineInv_publishState)
    qed
  qed
qed

lemma layoutSnake_Inr:
  "layoutSnake d r0 c0 ks s = Inr s' \<Longrightarrow>
     s' = s\<lparr>snake := snake s @ map (\<lambda>i. segmentPos d r0 c0 (int i)) ks, board := board s'\<rparr> \<and>
     (\<forall>q. inGrid (board s') q = inGrid (board s) q) \<and>
     (\<forall>nr nc. wellShaped (board s) nr nc \<longrightarrow> wellShaped (board s') nr nc) \<and>
     (\<forall>q. inGrid (board s) q \<longrightarrow>
        cell (board s') q =
          (if q \<in> (\<lambda>i. segmentPos d r0 c0 (int i)) ` set ks then SNAKE else cell (board s) q)) \<and>
     (\<forall>i \<in> set ks. inGrid (board s) (segmentPos d r0 c0 (int i)))"
proof (induction ks arbitrary: s)
  case Nil
  then show ?case by simp
next
  case (Cons k ks)
  let ?p = "segmentPos d r0 c0 (int k)"
  obtain b where w: "writeCell (board s) ?p SNAKE = Inr b"
    and l: "layoutSnake d r0 c0 ks (s\<lparr>snake := snake s @ [?p], board := b\<rparr>) = Inr s'"
    using Cons.prems by (auto simp: Let_def split: sum.splits)
  note ih = Cons.IH [OF l]
  have ig: "\<And>q. inGrid b q = inGrid (board s) q" using w by (rule writeCell_inGrid)
  have cl: "\<And>q. inGrid (board s) q \<Longrightarrow> cell b q = (if q = ?p then SNAKE else cell (board s) q)"
    using w by (rule writeCell_cell)
  have pg: "inGrid (board s) ?p" using w by (simp add: writeCell_Inr_iff)
  have 1: "s' = s\<lparr>snake := snake s @ map (\<lambda>i. segmentPos d r0 c0 (int i)) (k # ks),
                   board := board s'\<rparr>"
    using ih by simp
  have 2: "\<forall>q. inGrid (board s') q = inGrid (board s) q" using ih ig by simp
  have 3: "\<forall>nr nc. wellShaped (board s) nr nc \<longrightarrow> wellShaped (board s') nr nc"
    using ih writeCell_wellShaped [OF w] by simp
  have 4: "\<forall>q. inGrid (board s) q \<longrightarrow>
        cell (board s') q =
          (if q \<in> (\<lambda>i. segmentPos d r0 c0 (int i)) ` set (k # ks) then SNAKE
           else cell (board s) q)"
    using ih by (auto simp: ig cl)
  have 5: "\<forall>i \<in> set (k # ks). inGrid (board s) (segmentPos d r0 c0 (int i))"
    using ih pg by (simp add: ig)
  show ?case using 1 2 3 4 5 by blast
qed

lemma layoutSnake_state:
  "layoutSnake d r0 c0 ks s = Inr s' \<Longrightarrow>
     s' = s\<lparr>snake := snake s @ map (\<lambda>i. segmentPos d r0 c0 (int i)) ks, board := board s'\<rparr>"
  using layoutSnake_Inr by blast

lemma layoutSnake_inGrid:
  "layoutSnake d r0 c0 ks s = Inr s' \<Longrightarrow> inGrid (board s') q = inGrid (board s) q"
  using layoutSnake_Inr by blast

lemma layoutSnake_wellShaped:
  "layoutSnake d r0 c0 ks s = Inr s' \<Longrightarrow> wellShaped (board s) nr nc \<Longrightarrow>
     wellShaped (board s') nr nc"
  using layoutSnake_Inr by blast

lemma layoutSnake_cell:
  "layoutSnake d r0 c0 ks s = Inr s' \<Longrightarrow> inGrid (board s) q \<Longrightarrow>
     cell (board s') q =
       (if q \<in> (\<lambda>i. segmentPos d r0 c0 (int i)) ` set ks then SNAKE else cell (board s) q)"
  using layoutSnake_Inr by blast

lemma layoutSnake_segments:
  "layoutSnake d r0 c0 ks s = Inr s' \<Longrightarrow> i \<in> set ks \<Longrightarrow>
     inGrid (board s) (segmentPos d r0 c0 (int i))"
  using layoutSnake_Inr by blast

lemma layoutSnake_total:
  "\<forall>i \<in> set ks. inGrid (board s) (segmentPos d r0 c0 (int i)) \<Longrightarrow>
     \<exists>s'. layoutSnake d r0 c0 ks s = Inr s'"
proof (induction ks arbitrary: s)
  case Nil
  then show ?case by simp
next
  case (Cons k ks)
  let ?p = "segmentPos d r0 c0 (int k)"
  obtain b where w: "writeCell (board s) ?p SNAKE = Inr b"
    using Cons.prems writeCell_total [of "board s" ?p] by auto
  have "\<forall>i \<in> set ks. inGrid (board (s\<lparr>snake := snake s @ [?p], board := b\<rparr>))
           (segmentPos d r0 c0 (int i))"
    using Cons.prems by (simp add: writeCell_inGrid [OF w])
  from Cons.IH [OF this] show ?case by (simp add: w)
qed

lemma distinct_segments:
  "d \<noteq> NONE \<Longrightarrow> distinct (map (\<lambda>i. segmentPos d r0 c0 (int i)) [0..<n])"
  by (cases d) (auto simp: distinct_map inj_on_def)

lemma initializeBoard_steady:
  assumes i: "initializeBoard nrows ncols len ppf d mem = Inr s0"
    and d: "d \<noteq> NONE" and len: "0 < len"
  shows "engineInv s0 \<and> steady s0 \<and> rows s0 = nrows \<and> cols s0 = ncols \<and> pointsPerFood s0 = ppf \<and>
         snakeStartingLength s0 = len \<and> score s0 = 0 \<and> \<not> gameOver s0 \<and>
         snake s0 = map (\<lambda>i. segmentPos d (nrows div 2) (ncols div 2) (int i)) [0..<nat len] \<and>
         (\<not> foodExists s0 \<longrightarrow> (\<forall>p. inGrid (board s0) p \<longrightarrow> p \<in> set (snake s0)))"
proof -
  let ?segs = "map (\<lambda>i. segmentPos d (nrows div 2) (ncols div 2) (int i)) [0..<nat len]"
  let ?b0 = "replicate (nat nrows) (replicate (nat ncols) EMPTY)"
  define s1 where "s1 = mem\<lparr>rows := nrows, cols := ncols, snakeStartingLength := len,
                    pointsPerFood := ppf, currentDirection := d, nextDirection := d,
                    score := 0, gameOver := False, snakeGrowth := 0, foodExists := False,
                    snake := [], board := ?b0\<rparr>"
  have nn: "0 \<le> nrows" "0 \<le> ncols" using i by (auto simp: initializeBoard_def split: if_splits)
  obtain s2 s3 where l: "layoutSnake d (nrows div 2) (ncols div 2) [0..<nat len] s1 = Inr s2"
    and p: "placeRandomFood s2 = Inr s3" and s0: "s0 = publishState s3"
    using i nn by (auto simp: initializeBoard_def s1_def [symmetric] Let_def split: sum.splits)
  have b1: "board s1 = ?b0" by (simp add: s1_def)
  have s2: "s2 = s1\<lparr>snake := ?segs, board := board s2\<rparr>"
    using layoutSnake_state [OF l] by (simp add: s1_def)
  have f2: "rows s2 = nrows" "cols s2 = ncols" "snake s2 = ?segs" "\<not> foodExists s2"
    "snakeGrowth s2 = 0" "currentDirection s2 = d" "nextDirection s2 = d"
    "pointsPerFood s2 = ppf" "snakeStartingLength s2 = len" "score s2 = 0" "\<not> gameOver s2"
    by (subst s2, simp add: s1_def)+
  have ig: "\<And>q. inGrid (board s2) q = inGrid ?b0 q"
    using layoutSnake_inGrid [OF l] by (simp add: b1)
  have cl: "\<And>q. inGrid ?b0 q \<Longrightarrow> cell (board s2) q = (if q \<in> set ?segs then SNAKE else EMPTY)"
    using layoutSnake_cell [OF l] by (simp add: b1 cell_replicate)
  have c2: "core s2"
  proof (rule coreI)
    show "wellShaped (board s2) (rows s2) (cols s2)"
      using layoutSnake_wellShaped [OF l, of nrows ncols] wellShaped_replicate [OF nn, of EMPTY]
      by (simp add: b1 f2)
    show "snake s2 \<noteq> []" using len by (simp add: f2)
    show "distinct (snake s2)" using distinct_segments [OF d] by (simp add: f2)
    show "inGrid (board s2) q" if "q \<in> set (snake s2)" for q
      using that layoutSnake_segments [OF l] by (auto simp: f2 ig b1)
    show "(cell (board s2) q = SNAKE) = (q \<in> set (snake s2))" if "inGrid (board s2) q" for q
      using that by (simp add: ig cl f2)
    show "(cell (board s2) q = FOOD) = (foodExists s2 \<and> q = food s2)"
      if "inGrid (board s2) q" for q
      using that by (simp add: ig cl f2)
    show "inGrid (board s2) (food s2)" if "foodExists s2" using that by (simp add: f2)
    show "cell (board s2) q = EMPTY \<or> cell (board s2) q = SNAKE \<or> cell (board s2) q = FOOD"
      if "inGrid (board s2) q" for q
      using that by (simp add: ig cl)
  qed
  obtain x where x: "placeRandomFood s2 = Inr x" "core x" "snake x = snake s2"
    "\<not> foodExists x \<longrightarrow> x = s2 \<and> (\<forall>p. inGrid (board s2) p \<longrightarrow> cell (board s2) p \<noteq> EMPTY)"
    using placeRandomFood_core [OF c2 f2(4)] by blast
  then have x3: "s3 = x" using p by simp
  have f3: "snakeGrowth s3 = snakeGrowth s2 \<and> rows s3 = rows s2 \<and> cols s3 = cols s2
         \<and> pointsPerFood s3 = pointsPerFood s2 \<and> snakeStartingLength s3 = snakeStartingLength s2
         \<and> currentDirection s3 = currentDirection s2 \<and> nextDirection s3 = nextDirection s2
         \<and> score s3 = score s2 \<and> gameOver s3 = gameOver s2"
    using p by (auto simp: placeRandomFood_def Let_def split: sum.splits if_splits)
  have full: "p \<in> set (snake s3)" if "\<not> foodExists s3" "inGrid (board s3) p" for p
  proof -
    have "s3 = s2" and "inGrid (board s2) p \<Longrightarrow> cell (board s2) p \<noteq> EMPTY"
      using x(4) that(1) x3 by blast+
    then show ?thesis using that(2) cl [of p] by (simp add: ig f2 split: if_splits)
  qed
  have "steady s3" using x x3 f3 f2 d by (simp add: steady_def)
  then show ?thesis using f3 f2 x(1-3) x3 full by (simp add: s0 engineInv_publishState)
qed

lemma setDirection_engineInv: "engineInv s \<Longrightarrow> engineInv (setDirection d s)"
proof -
  have "core (setDirection d s) = core s" by (rule core_cong) (simp_all add: setDirection_def)
  then show "engineInv s \<Longrightarrow> engineInv (setDirection d s)"
    by (simp add: engineInv_def steady_def published_def)
       (simp add: setDirection_def deref_def getGameState_def snapshotOf_def)
qed

lemma step_engineInv:
  "engineInv s \<Longrightarrow> step c s = Inr s' \<Longrightarrow>
     engineInv s' \<and> rows s' = rows s \<and> cols s' = cols s \<and> pointsPerFood s' = pointsPerFood s \<and>
     snakeStartingLength s' = snakeStartingLength s"
proof (cases c)
  case Update
  assume e: "engineInv s" and s: "step c s = Inr s'"
  then obtain alive where u: "update s = Inr (alive, s')"
    using Update by (auto split: sum.splits)
  have "steady s" using e by (simp add: engineInv_def)
  from update_steady [OF this u] e show ?thesis by auto
next
  case (SetDirection d)
  assume "engineInv s" and "step c s = Inr s'"
  then show ?thesis using SetDirection setDirection_engineInv [of s d]
    by (auto simp: setDirection_def)
qed

lemma run_engineInv:
  "engineInv s \<Longrightarrow> run cs s = Inr s' \<Longrightarrow>
     engineInv s' \<and> rows s' = rows s \<and> cols s' = cols s \<and> pointsPerFood s' = pointsPerFood s \<and>
     snakeStartingLength s' = snakeStartingLength s"
proof (induction cs arbitrary: s)
  case Nil
  then show ?case by simp
next
  case (Cons c cs)
  then obtain s1 where s1: "step c s = Inr s1" and r: "run cs s1 = Inr s'"
    by (auto split: sum.splits)
  from step_engineInv [OF Cons.prems(1) s1] Cons.IH [OF _ r] show ?case by simp
qed

lemma play_Inr:
  "play nrows ncols len ppf d mem seed cs = Inr s \<Longrightarrow>
     \<exists>s0. initializeBoard nrows ncols len ppf d (construct mem seed) = Inr s0 \<and> run cs s0 = Inr s"
  by (auto simp: play_def split: sum.splits)

lemma play_Nil:
  "play nrows ncols len ppf d mem seed [] = initializeBoard nrows ncols len ppf d (construct mem seed)"
  by (simp add: play_def split: sum.splits)

lemma play_engineInv:
  assumes "d \<noteq> NONE" and "0 < len" and "play nrows ncols len ppf d mem seed cs = Inr s"
  shows "engineInv s \<and> rows s = nrows \<and> cols s = ncols \<and> pointsPerFood s = ppf \<and>
         snakeStartingLength s = len"
proof -
  obtain s0 where i: "initializeBoard nrows ncols len ppf d (construct mem seed) = Inr s0"
    and r: "run cs s0 = Inr s"
    using play_Inr [OF assms(3)] by blast
  from initializeBoard_steady [OF i assms(1,2)] run_engineInv [OF _ r] show ?thesis by simp
qed

lemma engineInv_snapshot: "engineInv s \<Longrightarrow> deref s (getGameState s) = snapshotOf s"
  by (simp add: engineInv_def published_def)

lemma engineInv_core: "engineInv s \<Longrightarrow> core s"
  by (simp add: engineInv_def steady_def)

lemma engineInv_steady: "engineInv s \<Longrightarrow> steady s"
  by (simp add: engineInv_def)

lemma getNextHeadPosition_takeDirection:
  "getNextHeadPosition (takeDirection s) = Inr h \<Longrightarrow>
     snake s \<noteq> [] \<and> h = stepPos (nextDirection (takeDirection s)) (hd (snake s))"
  by (auto simp: getNextHeadPosition_def takeDirection_directions split: list.splits)

lemma placeRandomFood_total:
  assumes shape: "wellShaped (board s) (rows s) (cols s)"
  shows "\<exists>s'. placeRandomFood s = Inr s'"
proof -
  let ?b = "board s"
  let ?es = "filter (\<lambda>p. cell ?b p = EMPTY) (allCells (rows s) (cols s))"
  have ce: "collectEmpty ?b (allCells (rows s) (cols s)) = Inr ?es"
    by (rule collectEmpty_filter) (simp add: allCells_inGrid [OF shape])
  show ?thesis
  proof (cases "?es = []")
    case True
    then show ?thesis by (simp add: placeRandomFood_def ce)
  next
    case False
    let ?f = "?es ! (rng s 0 mod length ?es)"
    have "rng s 0 mod length ?es < length ?es" using False by simp
    then have "?f \<in> set ?es" by (rule nth_mem)
    then have "inGrid ?b ?f" by (simp add: allCells_inGrid [OF shape])
    then obtain b' where "writeCell ?b ?f FOOD = Inr b'" using writeCell_total by blast
    then show ?thesis using False by (simp add: placeRandomFood_def ce Let_def)
  qed
qed

lemma initializeBoard_total:
  assumes nn: "0 \<le> nrows" "0 \<le> ncols"
    and fit: "\<And>i. i < nat len \<Longrightarrow>
                isInBounds (mem\<lparr>rows := nrows, cols := ncols\<rparr>)
                  (fst (segmentPos d (nrows div 2) (ncols div 2) (int i)))
                  (snd (segmentPos d (nrows div 2) (ncols div 2) (int i)))"
  shows "\<exists>s0. initializeBoard nrows ncols len ppf d mem = Inr s0"
proof -
  let ?b0 = "replicate (nat nrows) (replicate (nat ncols) EMPTY)"
  define s1 where "s1 = mem\<lparr>rows := nrows, cols := ncols, snakeStartingLength := len,
                    pointsPerFood := ppf, currentDirection := d, nextDirection := d,
                    score := 0, gameOver := False, snakeGrowth := 0, foodExists := False,
                    snake := [], board := ?b0\<rparr>"
  have b1: "board s1 = ?b0" "rows s1 = nrows" "cols s1 = ncols" by (simp_all add: s1_def)
  have ws: "wellShaped (board s1) nrows ncols"
    using wellShaped_replicate [OF nn, of EMPTY] by (simp add: b1)
  have "\<forall>i \<in> set [0..<nat len].
          inGrid (board s1) (segmentPos d (nrows div 2) (ncols div 2) (int i))"
    using fit by (simp add: inGrid_wellShaped [OF ws] isInBounds_def)
  then obtain s2 where l: "layoutSnake d (nrows div 2) (ncols div 2) [0..<nat len] s1 = Inr s2"
    using layoutSnake_total by blast
  have s2: "s2 = s1\<lparr>snake := snake s1 @ map (\<lambda>i. segmentPos d (nrows div 2) (ncols div 2) (int i))
      [0..<nat len], board := board s2\<rparr>"
    using l by (rule layoutSnake_state)
  have "rows s2 = nrows" "cols s2 = ncols" by (subst s2, simp add: s1_def)+
  moreover have "wellShaped (board s2) nrows ncols"
    using l ws by (rule layoutSnake_wellShaped)
  ultimately obtain s3 where p: "placeRandomFood s2 = Inr s3"
    using placeRandomFood_total [of s2] by auto
  show ?thesis using nn l p by (simp add: initializeBoard_def s1_def [symmetric])
qed

lemma moveSnake_total:
  assumes "inGrid (board s) h"
    and "0 < snakeGrowth s \<or> snake s \<noteq> [] \<and> inGrid (board s) (last (snake s))"
  shows "\<exists>s2. moveSnake h s = Inr s2"
proof -
  obtain b1 where w: "writeCell (board s) h SNAKE = Inr b1"
    using writeCell_total [OF assms(1)] by blast
  show ?thesis
  proof (cases "0 < snakeGrowth s")
    case True
    then show ?thesis by (simp add: moveSnake_def w)
  next
    case False
    then have ne: "snake s \<noteq> []" and "inGrid (board s) (last (snake s))"
      using assms(2) by simp_all
    then have "inGrid b1 (last (snake s))" by (simp add: writeCell_inGrid [OF w])
    then obtain b2 where "writeCell b1 (last (snake s)) EMPTY = Inr b2"
      using writeCell_total by blast
    then show ?thesis using False ne by (simp add: moveSnake_def w)
  qed
qed

lemma moveSnake_wellShaped:
  assumes m: "moveSnake h s = Inr s2" and b: "wellShaped (board s) nr nc"
  shows "wellShaped (board s2) nr nc \<and> rows s2 = rows s \<and> cols s2 = cols s"
proof -
  obtain b1 where w1: "writeCell (board s) h SNAKE = Inr b1"
    and c: "snakeGrowth s > 0 \<and>
          s2 = s\<lparr>snake := h # snake s, board := b1, snakeGrowth := snakeGrowth s - 1\<rparr> \<or>
        \<not> snakeGrowth s > 0 \<and>
          (\<exists>b2. writeCell b1 (last (h # snake s)) EMPTY = Inr b2 \<and>
             s2 = s\<lparr>snake := butlast (h # snake s), board := b2\<rparr>)"
    using moveSnake_cases [OF m] by blast
  have b1: "wellShaped b1 nr nc" using w1 b by (rule writeCell_wellShaped)
  from c show ?thesis
  proof
    assume "snakeGrowth s > 0 \<and>
          s2 = s\<lparr>snake := h # snake s, board := b1, snakeGrowth := snakeGrowth s - 1\<rparr>"
    then show ?thesis using b1 by simp
  next
    assume "\<not> snakeGrowth s > 0 \<and>
          (\<exists>b2. writeCell b1 (last (h # snake s)) EMPTY = Inr b2 \<and>
             s2 = s\<lparr>snake := butlast (h # snake s), board := b2\<rparr>)"
    then obtain b2 where w2: "writeCell b1 (last (h # snake s)) EMPTY = Inr b2"
      and s2: "s2 = s\<lparr>snake := butlast (h # snake s), board := b2\<rparr>" by blast
    have "wellShaped b2 nr nc" using w2 b1 by (rule writeCell_wellShaped)
    then show ?thesis by (simp add: s2)
  qed
qed

text \<open>In a game started with one of the four directions and a snake of at least one
  cell, the only fault of \<open>update\<close> is the overflow of the score.\<close>

lemma update_total:
  assumes st: "steady s"
  shows "(\<exists>alive s'. update s = Inr (alive, s')) \<or>
         update s = Inl SignedOverflow \<and> \<not> gameOver s \<and>
           (score s + pointsPerFood s > INT_MAX \<or> score s + pointsPerFood s < INT_MIN)"
proof (cases "gameOver s")
  case True
  then have "update s = Inr (False, s)" by (simp add: update_def)
  then show ?thesis by blast
next
  case live: False
  define t where "t = takeDirection s"
  have stt: "steady t" unfolding t_def using st by (rule steady_takeDirection)
  then have c: "core t" and gr: "snakeGrowth t = 0" and dn: "currentDirection t \<noteq> NONE"
    by (simp_all add: steady_def)
  have shape: "wellShaped (board t) (rows t) (cols t)" using c by (rule core_shape)
  obtain h0 rest where sn: "snake t = h0 # rest"
    using core_snake [OF c] by (cases "snake t") auto
  define h where "h = stepPos (currentDirection t) h0"
  have gh: "getNextHeadPosition t = Inr h" by (simp add: getNextHeadPosition_def sn h_def)
  show ?thesis
  proof (cases "isInBounds t (fst h) (snd h) \<and> cell (board t) h \<noteq> WALL \<and> \<not> checkSelfCollision t h")
    case False
    then have "update s = endGame t"
      using live gh inGrid_isInBounds [OF shape, of h]
      by (auto simp: update_def t_def [symmetric] readCell_def)
    then show ?thesis by (auto simp: endGame_def)
  next
    case True
    then have ig: "inGrid (board t) h" using inGrid_isInBounds [OF shape, of h] by simp
    have rd: "readCell (board t) h = Inr (cell (board t) h)" using ig by (simp add: readCell_def)
    show ?thesis
    proof (cases "eatFood h t")
      case (Inl e)
      then have "e = SignedOverflow \<and>
          (score t + pointsPerFood t > INT_MAX \<or> score t + pointsPerFood t < INT_MIN)"
        by (auto simp: eatFood_def split: if_splits)
      moreover have "update s = Inl e"
        using live gh True rd Inl by (simp add: update_def t_def [symmetric])
      ultimately show ?thesis using live by (simp add: t_def)
    next
      case (Inr s1)
      have b1: "board s1 = board t" "snake s1 = snake t" "rows s1 = rows t" "cols s1 = cols t"
        and g1: "0 < snakeGrowth s1 \<or> snakeGrowth s1 = 0"
        using eatFood_cases [OF Inr] gr by auto
      have "inGrid (board t) (last (snake t))"
        using core_snake_inGrid [OF c, of "last (snake t)"] core_snake [OF c] by simp
      then obtain s2 where m: "moveSnake h s1 = Inr s2"
        using moveSnake_total [of s1 h] ig core_snake [OF c] by (auto simp: b1)
      have "wellShaped (board s2) (rows s2) (cols s2)"
        using moveSnake_wellShaped [OF m, of "rows t" "cols t"] shape b1 by simp
      then have "\<exists>s3. (if \<not> foodExists s2 then placeRandomFood s2 else Inr s2) = Inr s3"
        using placeRandomFood_total [of s2] by (cases "foodExists s2") simp_all
      then obtain s3 where p: "(if \<not> foodExists s2 then placeRandomFood s2 else Inr s2) = Inr s3"
        by blast
      have "update s = (if \<not> foodExists s3 \<and> snakeGrowth s3 = 0 then endGame s3
                        else Inr (True, publishState s3))"
        using live gh True rd Inr m p
        by (simp add: update_def t_def [symmetric])
      then show ?thesis by (auto simp: endGame_def)
    qed
  qed
qed

lemma run_total:
  "engineInv s \<Longrightarrow> (\<exists>s'. run cs s = Inr s') \<or> run cs s = Inl SignedOverflow"
proof (induction cs arbitrary: s)
  case Nil
  then show ?case by simp
next
  case (Cons c cs)
  show ?case
  proof (cases "step c s")
    case (Inl e)
    then have "e = SignedOverflow"
      using update_total [OF engineInv_steady [OF Cons.prems]]
      by (cases c) (auto split: sum.splits)
    then show ?thesis using Inl by simp
  next
    case (Inr s1)
    then have "engineInv s1" using step_engineInv [OF Cons.prems Inr] by simp
    from Cons.IH [OF this] show ?thesis by (simp add: Inr)
  qed
qed

text \<open>The three checks on any live state, reachable or not.\<close>

lemma terminal_checks_any_state:
  assumes live: "\<not> gameOver s"
    and gh: "getNextHeadPosition (takeDirection s) = Inr h"
    and hit: "\<not> isInBounds s (fst h) (snd h) \<or> readCell (board s) h = Inr WALL \<or>
              inGrid (board s) h \<and> checkSelfCollision s h"
  shows "update s = Inr (False, publishState (takeDirection s\<lparr>gameOver := True\<rparr>))"
proof -
  let ?t = "takeDirection s"
  have ib: "isInBounds ?t (fst h) (snd h) = isInBounds s (fst h) (snd h)"
    by (simp add: isInBounds_def)
  have col: "checkSelfCollision ?t h = checkSelfCollision s h"
    by (simp add: checkSelfCollision_def)
  show ?thesis
    using live gh hit
    by (auto simp: update_def endGame_def ib col readCell_def Let_def)
qed

subsection \<open>Shape of the board, for every initial direction and length\<close>

lemma noWall_iff: "noWall b \<longleftrightarrow> (\<forall>q. inGrid b q \<longrightarrow> cell b q \<noteq> WALL)"
  by (simp add: noWall_def readCell_def)

lemma noWallD: "noWall b \<Longrightarrow> inGrid b q \<Longrightarrow> cell b q \<noteq> WALL"
  unfolding noWall_iff by blast

lemma noWall_writeCell:
  assumes "writeCell b p v = Inr b'" and "v \<noteq> WALL" and "noWall b"
  shows "noWall b'"
  unfolding noWall_iff
proof (intro allI impI)
  fix q
  assume "inGrid b' q"
  then have q: "inGrid b q" using writeCell_inGrid [OF assms(1), of q] by simp
  then show "cell b' q \<noteq> WALL"
    using writeCell_cell [OF assms(1) q] noWallD [OF assms(3) q] assms(2) by simp
qed

lemma noWall_replicate: "noWall (replicate n (replicate m EMPTY))"
  unfolding noWall_iff by (simp add: cell_replicate)

lemma noWall_Nil: "noWall []"
  by (simp add: noWall_def readCell_def inGrid_def)

lemma tidy_publishState:
  assumes "wellShaped (board s) (rows s) (cols s)" and "noWall (board s)"
    and "\<forall>a. noWall (GameState.board (heap s a))"
  shows "tidy (publishState s)"
proof -
  have "published (publishState s)" by (simp add: published_def publishState_snapshot)
  moreover have "\<forall>a. noWall (GameState.board (heap (publishState s) a))"
    using assms(2,3) by (simp add: publishState_def)
  ultimately show ?thesis using assms(1,2) by (simp add: tidy_def)
qed

lemma board_write:
  "writeCell b p v = Inr b' \<Longrightarrow> v \<noteq> WALL \<Longrightarrow> wellShaped b nr nc \<and> noWall b \<Longrightarrow>
     wellShaped b' nr nc \<and> noWall b'"
  by (simp add: writeCell_wellShaped noWall_writeCell)

lemma moveSnake_board:
  assumes m: "moveSnake h s = Inr s2" and b: "wellShaped (board s) nr nc \<and> noWall (board s)"
  shows "wellShaped (board s2) nr nc \<and> noWall (board s2) \<and> rows s2 = rows s \<and>
         cols s2 = cols s \<and> heap s2 = heap s"
proof -
  obtain b1 where w1: "writeCell (board s) h SNAKE = Inr b1"
    and c: "snakeGrowth s > 0 \<and>
          s2 = s\<lparr>snake := h # snake s, board := b1, snakeGrowth := snakeGrowth s - 1\<rparr> \<or>
        \<not> snakeGrowth s > 0 \<and>
          (\<exists>b2. writeCell b1 (last (h # snake s)) EMPTY = Inr b2 \<and>
             s2 = s\<lparr>snake := butlast (h # snake s), board := b2\<rparr>)"
    using moveSnake_cases [OF m] by blast
  have b1: "wellShaped b1 nr nc \<and> noWall b1" using w1 _ b by (rule board_write) simp
  from c show ?thesis
  proof
    assume "snakeGrowth s > 0 \<and>
          s2 = s\<lparr>snake := h # snake s, board := b1, snakeGrowth := snakeGrowth s - 1\<rparr>"
    then show ?thesis using b1 by simp
  next
    assume "\<not> snakeGrowth s > 0 \<and>
          (\<exists>b2. writeCell b1 (last (h # snake s)) EMPTY = Inr b2 \<and>
             s2 = s\<lparr>snake := butlast (h # snake s), board := b2\<rparr>)"
    then obtain b2 where w2: "writeCell b1 (last (h # snake s)) EMPTY = Inr b2"
      and s2: "s2 = s\<lparr>snake := butlast (h # snake s), board := b2\<rparr>" by blast
    have "wellShaped b2 nr nc \<and> noWall b2" using w2 _ b1 by (rule board_write) simp
    then show ?thesis by (simp add: s2)
  qed
qed

lemma placeRandomFood_board:
  assumes p: "placeRandomFood s = Inr s'" and b: "wellShaped (board s) nr nc \<and> noWall (board s)"
  shows "wellShaped (board s') nr nc \<and> noWall (board s') \<and> rows s' = rows s \<and>
         cols s' = cols s \<and> heap s' = heap s"
proof -
  obtain es where c: "es = [] \<and> s' = s\<lparr>foodExists := False\<rparr> \<or>
        es \<noteq> [] \<and>
          (\<exists>b. writeCell (board s) (es ! (rng s 0 mod length es)) FOOD = Inr b \<and>
             s' = s\<lparr>rng := (\<lambda>i. rng s (Suc i)), food := es ! (rng s 0 mod length es),
                    board := b, foodExists := True\<rparr>)"
    using placeRandomFood_cases [OF p] by blast
  then show ?thesis
  proof
    assume "es = [] \<and> s' = s\<lparr>foodExists := False\<rparr>"
    then show ?thesis using b by simp
  next
    assume "es \<noteq> [] \<and>
          (\<exists>b. writeCell (board s) (es ! (rng s 0 mod length es)) FOOD = Inr b \<and>
             s' = s\<lparr>rng := (\<lambda>i. rng s (Suc i)), food := es ! (rng s 0 mod length es),
                    board := b, foodExists := True\<rparr>)"
    then obtain b' where w: "writeCell (board s) (es ! (rng s 0 mod length es)) FOOD = Inr b'"
      and s': "s' = s\<lparr>rng := (\<lambda>i. rng s (Suc i)), food := es ! (rng s 0 mod length es),
                    board := b', foodExists := True\<rparr>" by blast
    have "wellShaped b' nr nc \<and> noWall b'" using w _ b by (rule board_write) simp
    then show ?thesis by (simp add: s')
  qed
qed

lemma layoutSnake_board:
  "layoutSnake d r0 c0 ks s = Inr s' \<Longrightarrow> noWall (board s) \<Longrightarrow> noWall (board s')"
proof (induction ks arbitrary: s)
  case Nil
  then show ?case by simp
next
  case (Cons k ks)
  let ?p = "segmentPos d r0 c0 (int k)"
  obtain b where w: "writeCell (board s) ?p SNAKE = Inr b"
    and l: "layoutSnake d r0 c0 ks (s\<lparr>snake := snake s @ [?p], board := b\<rparr>) = Inr s'"
    using Cons.prems by (auto simp: Let_def split: sum.splits)
  have "noWall b" using w _ Cons.prems(2) by (rule noWall_writeCell) simp
  then show ?case using Cons.IH [OF l] by simp
qed

lemma update_tidy:
  assumes t: "tidy s" and u: "update s = Inr (alive, s')"
  shows "tidy s' \<and> rows s' = rows s \<and> cols s' = cols s"
proof (cases "gameOver s")
  case True
  then show ?thesis using t u by (simp add: update_def)
next
  case False
  let ?t = "takeDirection s"
  have ws: "wellShaped (board ?t) (rows s) (cols s)" and nw: "noWall (board ?t)"
    and hp: "\<forall>a. noWall (GameState.board (heap ?t a))"
    using t by (simp_all add: tidy_def)
  from False u show ?thesis
  proof (cases rule: update_cases)
    case (terminal h)
    have "tidy (publishState (?t\<lparr>gameOver := True\<rparr>))"
      using ws nw hp by (intro tidy_publishState) simp_all
    then show ?thesis by (simp add: terminal)
  next
    case (moved h s1 s2 s3)
    let ?Q = "\<lambda>x. wellShaped (board x) (rows s) (cols s) \<and> noWall (board x) \<and>
        rows x = rows s \<and> cols x = cols s \<and> heap x = heap s"
    have "?Q s1" using eatFood_cases [OF moved(6)] ws nw by auto
    then have q2: "?Q s2" using moveSnake_board [OF moved(7), of "rows s" "cols s"] by simp
    have q3: "?Q s3"
    proof (cases "foodExists s2")
      case True
      then show ?thesis using moved(8) q2 by simp
    next
      case False
      then have "placeRandomFood s2 = Inr s3" using moved(8) by simp
      from placeRandomFood_board [OF this, of "rows s" "cols s"] q2 show ?thesis by simp
    qed
    let ?x = "if alive then s3 else s3\<lparr>gameOver := True\<rparr>"
    have "tidy (publishState ?x)"
      using q3 hp by (intro tidy_publishState) simp_all
    then show ?thesis using q3 by (simp add: moved(10))
  qed
qed

lemma initializeBoard_tidy:
  assumes i: "initializeBoard nrows ncols len ppf d (construct mem seed) = Inr s0"
  shows "tidy s0 \<and> rows s0 = nrows \<and> cols s0 = ncols \<and> pointsPerFood s0 = ppf \<and>
         score s0 = 0 \<and> snakeGrowth s0 = 0 \<and> length (snake s0) = nat len"
proof -
  let ?b0 = "replicate (nat nrows) (replicate (nat ncols) EMPTY)"
  define s1 where "s1 = (construct mem seed)\<lparr>rows := nrows, cols := ncols,
                    snakeStartingLength := len,
                    pointsPerFood := ppf, currentDirection := d, nextDirection := d,
                    score := 0, gameOver := False, snakeGrowth := 0, foodExists := False,
                    snake := [], board := ?b0\<rparr>"
  have nn: "0 \<le> nrows" "0 \<le> ncols" using i by (auto simp: initializeBoard_def split: if_splits)
  obtain s2 s3 where l: "layoutSnake d (nrows div 2) (ncols div 2) [0..<nat len] s1 = Inr s2"
    and p: "placeRandomFood s2 = Inr s3" and s0: "s0 = publishState s3"
    using i nn by (auto simp: initializeBoard_def s1_def [symmetric] Let_def split: sum.splits)
  have b1: "board s1 = ?b0" by (simp add: s1_def)
  have s2: "s2 = s1\<lparr>snake := snake s1 @
      map (\<lambda>i. segmentPos d (nrows div 2) (ncols div 2) (int i)) [0..<nat len],
      board := board s2\<rparr>"
    using l by (rule layoutSnake_state)
  have f2: "rows s2 = nrows" "cols s2 = ncols" "length (snake s2) = nat len"
    "snakeGrowth s2 = 0" "pointsPerFood s2 = ppf" "score s2 = 0"
    "heap s2 = (\<lambda>_. emptyGameState)"
    by (subst s2, simp add: s1_def construct_def)+
  have ws2: "wellShaped (board s2) nrows ncols"
    using l wellShaped_replicate [OF nn, of EMPTY] unfolding b1 [symmetric]
    by (rule layoutSnake_wellShaped)
  have nw2: "noWall (board s2)"
    by (rule layoutSnake_board [OF l]) (simp add: b1 noWall_replicate)
  have q3: "wellShaped (board s3) nrows ncols \<and> noWall (board s3) \<and> rows s3 = rows s2 \<and>
         cols s3 = cols s2 \<and> heap s3 = heap s2"
    using ws2 nw2 by (intro placeRandomFood_board [OF p]) simp
  have f3: "length (snake s3) = nat len" "snakeGrowth s3 = 0" "pointsPerFood s3 = ppf"
    "score s3 = 0"
    using placeRandomFood_cases [OF p] f2 by auto
  have "tidy (publishState s3)"
    using q3 f2 by (intro tidy_publishState) (simp_all add: emptyGameState_def noWall_Nil)
  then show ?thesis using q3 f2 f3 by (simp add: s0)
qed

lemma run_tidy:
  "tidy s \<Longrightarrow> run cs s = Inr s' \<Longrightarrow> tidy s' \<and> rows s' = rows s \<and> cols s' = cols s"
proof (induction cs arbitrary: s)
  case Nil
  then show ?case by simp
next
  case (Cons c cs)
  then obtain s1 where s1: "step c s = Inr s1" and r: "run cs s1 = Inr s'"
    by (auto split: sum.splits)
  have "tidy s1 \<and> rows s1 = rows s \<and> cols s1 = cols s"
  proof (cases c)
    case Update
    then obtain alive where "update s = Inr (alive, s1)" using s1 by (auto split: sum.splits)
    from update_tidy [OF Cons.prems(1) this] show ?thesis .
  next
    case (SetDirection d)
    then have "s1 = s\<lparr>atomicDirection := d\<rparr>" using s1 by (simp add: setDirection_def)
    then show ?thesis using Cons.prems(1)
      by (simp add: tidy_def published_def deref_def getGameState_def snapshotOf_def)
  qed
  with Cons.IH [OF _ r] show ?case by simp
qed

lemma play_tidy:
  "play nrows ncols len ppf d mem seed cs = Inr s \<Longrightarrow> tidy s \<and> rows s = nrows \<and> cols s = ncols"
  using play_Inr [of nrows ncols len ppf d mem seed cs s] initializeBoard_tidy run_tidy
  by metis

lemma tidy_snapshot:
  assumes "tidy s"
  shows "deref s (currentState s) = snapshotOf s" and "getRows s = rows s"
    and "getCols s = cols s"
  using assms
  by (simp_all add: tidy_def published_def getGameState_def getRows_def getCols_def
      snapshotOf_def)

subsection \<open>Counting the foods\<close>

lemma update_counts:
  assumes gr: "snakeGrowth s = 0" and u: "update s = Inr (alive, s')"
  shows "snakeGrowth s' = 0 \<and> pointsPerFood s' = pointsPerFood s \<and>
         score s' = score s + (if eats s then pointsPerFood s else 0) \<and>
         length (snake s') = length (snake s) + (if eats s then 1 else 0)"
proof (cases "gameOver s")
  case True
  then show ?thesis using u gr by (simp add: update_def eats_def)
next
  case False
  let ?t = "takeDirection s"
  from False u show ?thesis
  proof (cases rule: update_cases)
    case (terminal h)
    then have "\<not> eats s" by (auto simp: eats_def)
    then show ?thesis using terminal gr by simp
  next
    case (moved h s1 s2 s3)
    have e: "eats s \<longleftrightarrow> foodExists s \<and> h = food s"
      using False moved(1-5) by (simp add: eats_def readCell_def)
    have 3: "snakeGrowth s3 = snakeGrowth s2 \<and> pointsPerFood s3 = pointsPerFood s2 \<and>
        score s3 = score s2 \<and> snake s3 = snake s2"
    proof (cases "foodExists s2")
      case True
      then show ?thesis using moved(8) by simp
    next
      case False
      then have "placeRandomFood s2 = Inr s3" using moved(8) by simp
      from placeRandomFood_cases [OF this] show ?thesis by auto
    qed
    have 2: "snakeGrowth s2 = 0 \<and> pointsPerFood s2 = pointsPerFood s \<and>
         score s2 = score s + (if eats s then pointsPerFood s else 0) \<and>
         length (snake s2) = length (snake s) + (if eats s then 1 else 0)"
    proof (cases "foodExists s \<and> h = food s")
      case True
      then have "s1 = ?t\<lparr>snakeGrowth := 1, score := score s + pointsPerFood s,
                             foodExists := False\<rparr>"
        using eatFood_cases [OF moved(6)] gr by auto
      then show ?thesis using moveSnake_cases [OF moved(7)] True e by auto
    next
      case False
      then have "s1 = ?t" using eatFood_cases [OF moved(6)] by auto
      then show ?thesis using moveSnake_cases [OF moved(7)] False e gr by auto
    qed
    show ?thesis using 2 3 by (simp add: moved(10))
  qed
qed

lemma run_counts:
  "snakeGrowth s = 0 \<Longrightarrow> run cs s = Inr s' \<Longrightarrow>
     snakeGrowth s' = 0 \<and> pointsPerFood s' = pointsPerFood s \<and>
     score s' = score s + pointsPerFood s * int (foodsEaten cs s) \<and>
     length (snake s') = length (snake s) + foodsEaten cs s"
proof (induction cs arbitrary: s)
  case Nil
  then show ?case by simp
next
  case (Cons c cs)
  then obtain s1 where s1: "step c s = Inr s1" and r: "run cs s1 = Inr s'"
    by (auto split: sum.splits)
  have fe: "foodsEaten (c # cs) s = (if c = Update \<and> eats s then 1 else 0) + foodsEaten cs s1"
    by (simp add: s1)
  show ?case
  proof (cases c)
    case Update
    then obtain alive where u: "update s = Inr (alive, s1)" using s1 by (auto split: sum.splits)
    note c = update_counts [OF Cons.prems(1) u]
    then have "snakeGrowth s1 = 0" by simp
    from Cons.IH [OF this r] c show ?thesis
      unfolding fe by (simp add: Update algebra_simps)
  next
    case (SetDirection d)
    then have e: "s1 = s\<lparr>atomicDirection := d\<rparr>" using s1 by (simp add: setDirection_def)
    then have "snakeGrowth s1 = 0" using Cons.prems(1) by simp
    from Cons.IH [OF this r] show ?thesis
      unfolding fe by (simp add: SetDirection e)
  qed
qed

subsection \<open>The two buffers\<close>

lemma update_publishes:
  assumes live: "\<not> gameOver s" and u: "update s = Inr (alive, s')"
  shows "heap s' = (heap s)(writeBuffer s := snapshotOf s') \<and> currentState s' = writeBuffer s \<and>
         writeBuffer s' = readBuffer s \<and> readBuffer s' = writeBuffer s"
proof -
  let ?P = "\<lambda>x. heap x = heap s \<and> writeBuffer x = writeBuffer s \<and> readBuffer x = readBuffer s"
  have pub: "heap (publishState x) = (heap s)(writeBuffer s := snapshotOf (publishState x)) \<and>
      currentState (publishState x) = writeBuffer s \<and>
      writeBuffer (publishState x) = readBuffer s \<and> readBuffer (publishState x) = writeBuffer s"
    if "?P x" for x
    using that by (simp add: publishState_def snapshotOf_def)
  have t: "?P (takeDirection s)" by simp
  from live u show ?thesis
  proof (cases rule: update_cases)
    case (terminal h)
    have "?P (takeDirection s\<lparr>gameOver := True\<rparr>)" by simp
    from pub [OF this] show ?thesis by (simp only: terminal(4))
  next
    case (moved h s1 s2 s3)
    have "?P s1" using eatFood_cases [OF moved(6)] t by auto
    then have p2: "?P s2" using moveSnake_cases [OF moved(7)] by auto
    have "?P s3"
    proof (cases "foodExists s2")
      case True
      then show ?thesis using moved(8) p2 by simp
    next
      case False
      then have "placeRandomFood s2 = Inr s3" using moved(8) by simp
      from placeRandomFood_cases [OF this] p2 show ?thesis by auto
    qed
    then have "?P (if alive then s3 else s3\<lparr>gameOver := True\<rparr>)" by simp
    from pub [OF this] show ?thesis by (simp only: moved(10))
  qed
qed

text \<open>The constructor publishes the write buffer without swapping, so
  \<open>initializeBoard\<close> writes the first snapshot into the object that is already
  published.\<close>

lemma initializeBoard_buffers:
  assumes i: "initializeBoard nrows ncols len ppf d (construct mem seed) = Inr s0"
  shows "buffersSwapped s0 \<and> getGameState s0 = getGameState (construct mem seed) \<and>
         deref s0 (getGameState s0) = snapshotOf s0"
proof -
  define s1 where "s1 = (construct mem seed)\<lparr>rows := nrows, cols := ncols,
                    snakeStartingLength := len,
                    pointsPerFood := ppf, currentDirection := d, nextDirection := d,
                    score := 0, gameOver := False, snakeGrowth := 0, foodExists := False,
                    snake := [],
                    board := replicate (nat nrows) (replicate (nat ncols) EMPTY)\<rparr>"
  obtain s2 s3 where l: "layoutSnake d (nrows div 2) (ncols div 2) [0..<nat len] s1 = Inr s2"
    and p: "placeRandomFood s2 = Inr s3" and s0: "s0 = publishState s3"
    using i
    by (auto simp: initializeBoard_def s1_def [symmetric] Let_def split: sum.splits if_splits)
  have s2: "s2 = s1\<lparr>snake := snake s1 @
      map (\<lambda>i. segmentPos d (nrows div 2) (ncols div 2) (int i)) [0..<nat len],
      board := board s2\<rparr>"
    using l by (rule layoutSnake_state)
  have f2: "writeBuffer s2 = BufferA" "readBuffer s2 = BufferB"
    by (subst s2, simp add: s1_def construct_def)+
  have "writeBuffer s3 = BufferA \<and> readBuffer s3 = BufferB"
    using placeRandomFood_cases [OF p] f2 by auto
  then show ?thesis
    by (simp add: s0 publishState_snapshot)
       (simp add: buffersSwapped_def publishState_def getGameState_def construct_def)
qed

lemma run_buffers: "buffersSwapped s \<Longrightarrow> run cs s = Inr s' \<Longrightarrow> buffersSwapped s'"
proof (induction cs arbitrary: s)
  case Nil
  then show ?case by simp
next
  case (Cons c cs)
  then obtain s1 where s1: "step c s = Inr s1" and r: "run cs s1 = Inr s'"
    by (auto split: sum.splits)
  have "buffersSwapped s1"
  proof (cases c)
    case Update
    then obtain alive where u: "update s = Inr (alive, s1)" using s1 by (auto split: sum.splits)
    show ?thesis
    proof (cases "gameOver s")
      case True
      then show ?thesis using u Cons.prems(1) by (simp add: update_def)
    next
      case False
      from update_publishes [OF False u] Cons.prems(1) show ?thesis
        by (auto simp: buffersSwapped_def)
    qed
  next
    case (SetDirection d)
    then show ?thesis using s1 Cons.prems(1) by (auto simp: setDirection_def buffersSwapped_def)
  qed
  from Cons.IH [OF this r] show ?case .
qed

text \<open>A reader fetches the snapshot pointer in a reachable state; two updates on a live
  game later the pointer is current again and the object behind it holds the newest
  data.\<close>

lemma snapshot_buffer_reused:
  assumes p: "play nrows ncols len ppf d mem seed cs = Inr s"
    and l0: "\<not> gameOver s" and u1: "update s = Inr (a1, s1)"
    and l1: "\<not> gameOver s1" and u2: "update s1 = Inr (a2, s2)"
  shows "deref s1 (getGameState s) = deref s (getGameState s) \<and>
         getGameState s2 = getGameState s \<and> deref s2 (getGameState s) = snapshotOf s2"
proof -
  obtain s0 where i: "initializeBoard nrows ncols len ppf d (construct mem seed) = Inr s0"
    and r: "run cs s0 = Inr s"
    using play_Inr [OF p] by blast
  have "buffersSwapped s0" using initializeBoard_buffers [OF i] by simp
  then have b: "buffersSwapped s" using r by (rule run_buffers)
  note p1 = update_publishes [OF l0 u1]
  note p2 = update_publishes [OF l1 u2]
  show ?thesis using b p1 p2
    by (auto simp: buffersSwapped_def deref_def getGameState_def)
qed

subsection \<open>Reversals\<close>

lemma reversal_invalid:
  "currentDirection s \<noteq> NONE \<Longrightarrow> \<not> isValidDirectionChange s (opposite (currentDirection s))"
  by (cases "currentDirection s") (simp_all add: isValidDirectionChange_def)

lemma takeDirection_reversal:
  "currentDirection s \<noteq> NONE \<Longrightarrow>
     takeDirection (setDirection (opposite (currentDirection s)) s) =
     takeDirection (setDirection NONE s)"
  by (cases "currentDirection s")
     (simp_all add: takeDirection_def setDirection_def Let_def isValidDirectionChange_def)

subsection \<open>Examples of games\<close>

text \<open>A 3 x 3 board, a snake of one cell heading right from the centre, and a generator
  that always delivers 0: the food is placed at (0, 0); the first update moves the snake
  to (1, 2), the second one leaves the board.\<close>

lemma example_one_update:
  "\<exists>s. play 3 3 1 10 RIGHT mem0 (\<lambda>_. 0) [Update] = Inr s \<and> \<not> gameOver s \<and>
     snake s = [(1, 2)] \<and> rows s = 3 \<and> cols s = 3 \<and> nextDirection s = RIGHT \<and>
     currentDirection s = RIGHT \<and> atomicDirection s = NONE"
proof -
  have "case play 3 3 1 10 RIGHT mem0 (\<lambda>_. 0) [Update] of Inl _ \<Rightarrow> False
        | Inr s \<Rightarrow> \<not> gameOver s \<and> snake s = [(1, 2)] \<and> rows s = 3 \<and> cols s = 3 \<and>
            nextDirection s = RIGHT \<and> currentDirection s = RIGHT \<and> atomicDirection s = NONE"
    by code_simp
  then show ?thesis by (auto split: sum.splits)
qed

lemma example_two_updates:
  "\<exists>s. play 3 3 1 10 RIGHT mem0 (\<lambda>_. 0) [Update, Update] = Inr s \<and> gameOver s"
proof -
  have "case play 3 3 1 10 RIGHT mem0 (\<lambda>_. 0) [Update, Update] of Inl _ \<Rightarrow> False
        | Inr s \<Rightarrow> gameOver s"
    by code_simp
  then show ?thesis by (auto split: sum.splits)
qed

text \<open>With a generator that delivers 4 the food of the 3 x 3 game is placed at (1, 2),
  right in front of the snake.\<close>

lemma example_food_ahead:
  "\<exists>s. play 3 3 1 10 RIGHT mem0 (\<lambda>_. 4) [] = Inr s \<and> \<not> gameOver s \<and>
     snake s = [(1, 1)] \<and> nextDirection s = RIGHT \<and> currentDirection s = RIGHT \<and>
     atomicDirection s = NONE \<and> foodExists s \<and> food s = (1, 2) \<and> score s = 0 \<and>
     pointsPerFood s = 10"
proof -
  have "case play 3 3 1 10 RIGHT mem0 (\<lambda>_. 4) [] of Inl _ \<Rightarrow> False
        | Inr s \<Rightarrow> \<not> gameOver s \<and> snake s = [(1, 1)] \<and> nextDirection s = RIGHT \<and>
            currentDirection s = RIGHT \<and> atomicDirection s = NONE \<and> foodExists s \<and>
            food s = (1, 2) \<and> score s = 0 \<and> pointsPerFood s = 10"
    by code_simp
  then show ?thesis by (auto split: sum.splits)
qed

lemma example_eaten:
  "\<exists>s0 s. initializeBoard 3 3 1 10 RIGHT (construct mem0 (\<lambda>_. 4)) = Inr s0 \<and>
     run [Update] s0 = Inr s \<and> foodsEaten [Update] s0 = 1 \<and>
     GameState.score (deref s (getGameState s)) = 10 \<and>
     GameState.snakeLength (deref s (getGameState s)) = 2"
proof -
  have "case initializeBoard 3 3 1 10 RIGHT (construct mem0 (\<lambda>_. 4)) of Inl _ \<Rightarrow> False
        | Inr s0 \<Rightarrow> (case run [Update] s0 of Inl _ \<Rightarrow> False
             | Inr s \<Rightarrow> foodsEaten [Update] s0 = 1 \<and>
                 GameState.score (deref s (getGameState s)) = 10 \<and>
                 GameState.snakeLength (deref s (getGameState s)) = 2)"
    by code_simp
  then show ?thesis
    by (auto split: sum.splits simp del: run.simps foodsEaten.simps)
qed

text \<open>A 2 x 8 board and a snake of four cells heading right along the lower row. It
  turns up, then left, and is about to turn down onto the cell of its own tail.\<close>

lemma example_onto_tail:
  "\<exists>s. play 2 8 4 10 RIGHT mem0 (\<lambda>_. 0)
         [SetDirection UP, Update, SetDirection LEFT, Update, SetDirection DOWN] = Inr s \<and>
     \<not> gameOver s \<and> snake s = [(0, 3), (0, 4), (1, 4), (1, 3)] \<and>
     getNextHeadPosition (takeDirection s) = Inr (1, 3)"
proof -
  have "case play 2 8 4 10 RIGHT mem0 (\<lambda>_. 0)
         [SetDirection UP, Update, SetDirection LEFT, Update, SetDirection DOWN] of
          Inl _ \<Rightarrow> False
        | Inr s \<Rightarrow> \<not> gameOver s \<and> snake s = [(0, 3), (0, 4), (1, 4), (1, 3)] \<and>
            getNextHeadPosition (takeDirection s) = Inr (1, 3)"
    by code_simp
  then show ?thesis by (auto split: sum.splits)
qed

text \<open>The first update of the 3 x 3 game with a request to turn back pending.\<close>

lemma example_reversal:
  "\<exists>s alive s'. play 3 3 1 10 RIGHT mem0 (\<lambda>_. 0) [] = Inr s \<and> \<not> gameOver s \<and>
     currentDirection s = RIGHT \<and> update (setDirection (opposite RIGHT) s) = Inr (alive, s')"
proof -
  have "case play 3 3 1 10 RIGHT mem0 (\<lambda>_. 0) [] of Inl _ \<Rightarrow> False
        | Inr s \<Rightarrow> \<not> gameOver s \<and> currentDirection s = RIGHT \<and>
            (case update (setDirection (opposite RIGHT) s) of Inl _ \<Rightarrow> False | Inr _ \<Rightarrow> True)"
    by code_simp
  then obtain s where p: "play 3 3 1 10 RIGHT mem0 (\<lambda>_. 0) [] = Inr s"
    and f: "\<not> gameOver s" "currentDirection s = RIGHT"
    and c: "case update (setDirection (opposite RIGHT) s) of Inl _ \<Rightarrow> False | Inr _ \<Rightarrow> True"
    by (cases "play 3 3 1 10 RIGHT mem0 (\<lambda>_. 0) []") auto
  then obtain alive s' where "update (setDirection (opposite RIGHT) s) = Inr (alive, s')"
    by (cases "update (setDirection (opposite RIGHT) s)") auto
  with p f show ?thesis by blast
qed

text \<open>The 3 x 3 game with a generator that delivers 5: the food is at (2, 0), and
  \<open>placeWalls\<close>, had it a caller, would put a wall at (2, 1), below the snake.\<close>

lemma example_wall_ahead:
  "\<exists>s0 sw. initializeBoard 3 3 1 10 RIGHT (construct mem0 (\<lambda>_. 5)) = Inr s0 \<and>
     placeWalls (Suc 0) s0 = Inr sw \<and> \<not> gameOver (setDirection DOWN sw) \<and>
     getNextHeadPosition (takeDirection (setDirection DOWN sw)) = Inr (2, 1) \<and>
     isInBounds (setDirection DOWN sw) 2 1 \<and>
     readCell (board (setDirection DOWN sw)) (2, 1) = Inr WALL"
proof -
  have "case initializeBoard 3 3 1 10 RIGHT (construct mem0 (\<lambda>_. 5)) of Inl _ \<Rightarrow> False
        | Inr s0 \<Rightarrow> (case placeWalls (Suc 0) s0 of Inl _ \<Rightarrow> False
           | Inr sw \<Rightarrow> \<not> gameOver (setDirection DOWN sw) \<and>
               getNextHeadPosition (takeDirection (setDirection DOWN sw)) = Inr (2, 1) \<and>
               isInBounds (setDirection DOWN sw) 2 1 \<and>
               readCell (board (setDirection DOWN sw)) (2, 1) = Inr WALL)"
    by code_simp
  then obtain s0 where i: "initializeBoard 3 3 1 10 RIGHT (construct mem0 (\<lambda>_. 5)) = Inr s0"
    and c: "case placeWalls (Suc 0) s0 of Inl _ \<Rightarrow> False
           | Inr sw \<Rightarrow> \<not> gameOver (setDirection DOWN sw) \<and>
               getNextHeadPosition (takeDirection (setDirection DOWN sw)) = Inr (2, 1) \<and>
               isInBounds (setDirection DOWN sw) 2 1 \<and>
               readCell (board (setDirection DOWN sw)) (2, 1) = Inr WALL"
    by (cases "initializeBoard 3 3 1 10 RIGHT (construct mem0 (\<lambda>_. 5))") simp_all
  then obtain sw where "placeWalls (Suc 0) s0 = Inr sw"
    and "\<not> gameOver (setDirection DOWN sw) \<and>
               getNextHeadPosition (takeDirection (setDirection DOWN sw)) = Inr (2, 1) \<and>
               isInBounds (setDirection DOWN sw) 2 1 \<and>
               readCell (board (setDirection DOWN sw)) (2, 1) = Inr WALL"
    by (cases "placeWalls (Suc 0) s0") (simp_all del: placeWalls.simps)
  with i show ?thesis by blast
qed

text \<open>A 1 x 5 board, \<open>pointsPerFood = 2147483647\<close> and a generator that delivers 2:
  the food is at (0, 3), in front of the snake, and the next one at (0, 4). The first
  update eats and brings the score to the largest \<open>int\<close>; the second one eats again.\<close>

lemma example_overflow:
  "\<exists>s0 s1. initializeBoard 1 5 1 2147483647 RIGHT (construct mem0 (\<lambda>_. 2)) = Inr s0 \<and>
     update s0 = Inr (True, s1) \<and> eats s0 \<and> eats s1 \<and> \<not> gameOver s1 \<and> foodExists s1 \<and>
     getNextHeadPosition (takeDirection s1) = Inr (food s1) \<and>
     score s1 + pointsPerFood s1 = 4294967294 \<and>
     update s1 = Inl SignedOverflow"
proof -
  have "case initializeBoard 1 5 1 2147483647 RIGHT (construct mem0 (\<lambda>_. 2)) of
          Inl _ \<Rightarrow> False
        | Inr s0 \<Rightarrow> (case update s0 of Inl _ \<Rightarrow> False
           | Inr (a, s1) \<Rightarrow> a \<and> eats s0 \<and> eats s1 \<and> \<not> gameOver s1 \<and> foodExists s1 \<and>
               getNextHeadPosition (takeDirection s1) = Inr (food s1) \<and>
               score s1 + pointsPerFood s1 = 4294967294 \<and>
               (case update s1 of Inl e \<Rightarrow> e = SignedOverflow | Inr _ \<Rightarrow> False))"
    by code_simp
  then obtain s0 where i: "initializeBoard 1 5 1 2147483647 RIGHT (construct mem0 (\<lambda>_. 2)) = Inr s0"
    and c: "case update s0 of Inl _ \<Rightarrow> False
           | Inr (a, s1) \<Rightarrow> a \<and> eats s0 \<and> eats s1 \<and> \<not> gameOver s1 \<and> foodExists s1 \<and>
               getNextHeadPosition (takeDirection s1) = Inr (food s1) \<and>
               score s1 + pointsPerFood s1 = 4294967294 \<and>
               (case update s1 of Inl e \<Rightarrow> e = SignedOverflow | Inr _ \<Rightarrow> False)"
    by (cases "initializeBoard 1 5 1 2147483647 RIGHT (construct mem0 (\<lambda>_. 2))") simp_all
  then obtain a s1 where u: "update s0 = Inr (a, s1)"
    and f: "a \<and> eats s0 \<and> eats s1 \<and> \<not> gameOver s1 \<and> foodExists s1 \<and>
               getNextHeadPosition (takeDirection s1) = Inr (food s1) \<and>
               score s1 + pointsPerFood s1 = 4294967294"
    and o: "case update s1 of Inl e \<Rightarrow> e = SignedOverflow | Inr _ \<Rightarrow> False"
    by (cases "update s0") auto
  have "update s1 = Inl SignedOverflow" using o by (cases "update s1") simp_all
  moreover have "update s0 = Inr (True, s1)" using u f by simp
  ultimately show ?thesis using i f by blast
qed

text \<open>With the sentinel \<open>NONE\<close> as initial direction, which no public accessor
  returns, and a snake of one cell, an update pushes the head onto itself and then clears
  its cell as the tail: the board no longer marks the snake. The invariant of board and
  snake is therefore stated for the four directions.\<close>

lemma example_none_direction:
  "\<exists>s. play 3 3 1 10 NONE mem0 (\<lambda>_. 0) [Update] = Inr s \<and> snake s = [(1, 1)] \<and>
     readCell (board s) (1, 1) = Inr EMPTY"
proof -
  have "case play 3 3 1 10 NONE mem0 (\<lambda>_. 0) [Update] of Inl _ \<Rightarrow> False
        | Inr s \<Rightarrow> snake s = [(1, 1)] \<and> readCell (board s) (1, 1) = Inr EMPTY"
    by code_simp
  then show ?thesis by (auto split: sum.splits)
qed

section \<open>The claims\<close>

subsection \<open>Snapshots are overwritten\<close>

text \<open>C1: the claim that a snapshot is never modified after it is published fails on
  the code. On the 3 x 3 board a reader fetches the pointer after \<open>initializeBoard\<close>,
  when the object behind it shows the snake at (1, 1) and a live game. The first update
  publishes the other buffer; the second one writes into the object the reader holds,
  which then shows the snake at (1, 2), another board, and \<open>gameOver\<close>.\<close>

theorem held_snapshot_overwritten:
  "\<exists>s0 s1 s2. initializeBoard 3 3 1 10 RIGHT (construct mem0 (\<lambda>_. 0)) = Inr s0 \<and>
     update s0 = Inr (True, s1) \<and> update s1 = Inr (False, s2) \<and>
     GameState.snake (deref s0 (getGameState s0)) = [(1, 1)] \<and>
     \<not> GameState.gameOver (deref s0 (getGameState s0)) \<and>
     GameState.snake (deref s2 (getGameState s0)) = [(1, 2)] \<and>
     GameState.gameOver (deref s2 (getGameState s0)) \<and>
     GameState.board (deref s2 (getGameState s0)) \<noteq> GameState.board (deref s0 (getGameState s0))"
proof -
  have "case initializeBoard 3 3 1 10 RIGHT (construct mem0 (\<lambda>_. 0)) of Inl _ \<Rightarrow> False
        | Inr s0 \<Rightarrow> (case update s0 of Inl _ \<Rightarrow> False
           | Inr (a1, s1) \<Rightarrow> (case update s1 of Inl _ \<Rightarrow> False
              | Inr (a2, s2) \<Rightarrow> a1 \<and> \<not> a2 \<and>
                  GameState.snake (deref s0 (getGameState s0)) = [(1, 1)] \<and>
                  \<not> GameState.gameOver (deref s0 (getGameState s0)) \<and>
                  GameState.snake (deref s2 (getGameState s0)) = [(1, 2)] \<and>
                  GameState.gameOver (deref s2 (getGameState s0)) \<and>
                  GameState.board (deref s2 (getGameState s0)) \<noteq>
                    GameState.board (deref s0 (getGameState s0))))"
    by code_simp
  then obtain s0 where i: "initializeBoard 3 3 1 10 RIGHT (construct mem0 (\<lambda>_. 0)) = Inr s0"
    and c1: "case update s0 of Inl _ \<Rightarrow> False
           | Inr (a1, s1) \<Rightarrow> (case update s1 of Inl _ \<Rightarrow> False
              | Inr (a2, s2) \<Rightarrow> a1 \<and> \<not> a2 \<and>
                  GameState.snake (deref s0 (getGameState s0)) = [(1, 1)] \<and>
                  \<not> GameState.gameOver (deref s0 (getGameState s0)) \<and>
                  GameState.snake (deref s2 (getGameState s0)) = [(1, 2)] \<and>
                  GameState.gameOver (deref s2 (getGameState s0)) \<and>
                  GameState.board (deref s2 (getGameState s0)) \<noteq>
                    GameState.board (deref s0 (getGameState s0)))"
    by (cases "initializeBoard 3 3 1 10 RIGHT (construct mem0 (\<lambda>_. 0))") simp_all
  then obtain a1 s1 where u1: "update s0 = Inr (a1, s1)"
    and c2: "case update s1 of Inl _ \<Rightarrow> False
              | Inr (a2, s2) \<Rightarrow> a1 \<and> \<not> a2 \<and>
                  GameState.snake (deref s0 (getGameState s0)) = [(1, 1)] \<and>
                  \<not> GameState.gameOver (deref s0 (getGameState s0)) \<and>
                  GameState.snake (deref s2 (getGameState s0)) = [(1, 2)] \<and>
                  GameState.gameOver (deref s2 (getGameState s0)) \<and>
                  GameState.board (deref s2 (getGameState s0)) \<noteq>
                    GameState.board (deref s0 (getGameState s0))"
    by (cases "update s0") auto
  then obtain a2 s2 where u2: "update s1 = Inr (a2, s2)"
    and c3: "a1 \<and> \<not> a2 \<and>
                  GameState.snake (deref s0 (getGameState s0)) = [(1, 1)] \<and>
                  \<not> GameState.gameOver (deref s0 (getGameState s0)) \<and>
                  GameState.snake (deref s2 (getGameState s0)) = [(1, 2)] \<and>
                  GameState.gameOver (deref s2 (getGameState s0)) \<and>
                  GameState.board (deref s2 (getGameState s0)) \<noteq>
                    GameState.board (deref s0 (getGameState s0))"
    by (cases "update s1") auto
  show ?thesis using i u1 u2 c3 by auto
qed

subsection \<open>Board and snake in the published snapshot\<close>

text \<open>C2: in a game started with one of the four directions and a snake of at least
  one cell, after any calls of \<open>update\<close> and \<open>setDirection\<close> the published snapshot's
  board holds \<open>SNAKE\<close> at exactly the cells of its snake sequence, at most one cell
  holds \<open>FOOD\<close>, and the dimensions are those given to \<open>initializeBoard\<close>.\<close>

theorem snapshot_board_matches_snake:
  assumes "d \<noteq> NONE" and "0 < len" and "play nrows ncols len ppf d mem seed cs = Inr s"
  shows "let g = deref s (getGameState s) in
     (\<forall>p. readCell (GameState.board g) p = Inr SNAKE \<longleftrightarrow> p \<in> set (GameState.snake g)) \<and>
     (\<forall>p q. readCell (GameState.board g) p = Inr FOOD \<longrightarrow>
            readCell (GameState.board g) q = Inr FOOD \<longrightarrow> p = q) \<and>
     wellShaped (GameState.board g) nrows ncols \<and>
     GameState.rows g = nrows \<and> GameState.cols g = ncols \<and> rows s = nrows \<and> cols s = ncols"
proof -
  have e: "engineInv s" and rc: "rows s = nrows" "cols s = ncols"
    using play_engineInv [OF assms] by simp_all
  have g: "deref s (getGameState s) = snapshotOf s" using e by (rule engineInv_snapshot)
  have c: "core s" using e by (rule engineInv_core)
  have 1: "readCell (board s) p = Inr SNAKE \<longleftrightarrow> p \<in> set (snake s)" for p
    using core_snake_cell [OF c, of p] core_snake_inGrid [OF c, of p]
    by (auto simp: readCell_def)
  have 2: "p = q" if "readCell (board s) p = Inr FOOD" "readCell (board s) q = Inr FOOD" for p q
    using that core_food_cell [OF c, of p] core_food_cell [OF c, of q]
    by (auto simp: readCell_def split: if_splits)
  have 3: "wellShaped (board s) nrows ncols" using core_shape [OF c] rc by simp
  show ?thesis using 1 2 3 rc by (simp add: g snapshotOf_def Let_def) blast
qed

theorem snapshot_board_matches_snake_witness:
  "\<exists>s. play 3 3 1 10 RIGHT mem0 (\<lambda>_. 0) [Update] = Inr s \<and>
     (let g = deref s (getGameState s) in
      (\<forall>p. readCell (GameState.board g) p = Inr SNAKE \<longleftrightarrow> p \<in> set (GameState.snake g)) \<and>
      (\<forall>p q. readCell (GameState.board g) p = Inr FOOD \<longrightarrow>
            readCell (GameState.board g) q = Inr FOOD \<longrightarrow> p = q) \<and>
      wellShaped (GameState.board g) 3 3 \<and>
      GameState.rows g = 3 \<and> GameState.cols g = 3 \<and> rows s = 3 \<and> cols s = 3)"
proof -
  obtain s where p: "play 3 3 1 10 RIGHT mem0 (\<lambda>_. 0) [Update] = Inr s"
    using example_one_update by blast
  have d: "RIGHT \<noteq> NONE" and l: "(0::int) < 1" by simp_all
  from snapshot_board_matches_snake [OF d l p] p show ?thesis by blast
qed

subsection \<open>The terminal checks\<close>

text \<open>C3: on a live game, in any state, when the next head position is outside the
  board, or reads \<open>WALL\<close>, or is on the board and on a cell of the snake behind the
  head, \<open>update\<close> returns false, sets \<open>gameOver\<close> and publishes a snapshot with
  \<open>gameOver\<close> set; snake, board, score and food are as before the call. The bounds are
  tested first, so the board is only read inside. In a state reached by a game every cell
  of the snake is fatal, the tail included, which has not been removed yet.\<close>

theorem terminal_checks:
  assumes live: "\<not> gameOver s"
    and gh: "getNextHeadPosition (takeDirection s) = Inr h"
    and hit: "\<not> isInBounds s (fst h) (snd h) \<or> readCell (board s) h = Inr WALL \<or>
              inGrid (board s) h \<and> checkSelfCollision s h \<or>
              d \<noteq> NONE \<and> 0 < len \<and> play nrows ncols len ppf d mem seed cs = Inr s \<and>
                h \<in> set (snake s)"
  shows "\<exists>s'. update s = Inr (False, s') \<and> gameOver s' \<and>
           snake s' = snake s \<and> board s' = board s \<and> score s' = score s \<and>
           food s' = food s \<and> foodExists s' = foodExists s \<and>
           deref s' (getGameState s') = snapshotOf s' \<and>
           GameState.gameOver (deref s' (getGameState s'))"
proof -
  let ?t = "takeDirection s"
  let ?s' = "publishState (?t\<lparr>gameOver := True\<rparr>)"
  have "\<not> isInBounds s (fst h) (snd h) \<or> readCell (board s) h = Inr WALL \<or>
        inGrid (board s) h \<and> checkSelfCollision s h"
  proof (cases "d \<noteq> NONE \<and> 0 < len \<and> play nrows ncols len ppf d mem seed cs = Inr s \<and>
                h \<in> set (snake s)")
    case False
    then show ?thesis using hit by blast
  next
    case True
    then have st: "steady ?t"
      using play_engineInv [of d len nrows ncols ppf mem seed cs s]
      by (simp add: engineInv_steady steady_takeDirection)
    then have c: "core ?t" and dn: "currentDirection ?t \<noteq> NONE"
      by (simp_all add: steady_def)
    have shape: "wellShaped (board ?t) (rows ?t) (cols ?t)" using c by (rule core_shape)
    obtain h0 rest where sn: "snake s = h0 # rest" and h: "h = stepPos (currentDirection ?t) h0"
      using gh by (auto simp: getNextHeadPosition_def split: list.splits)
    have "h \<noteq> h0" unfolding h using dn by (rule stepPos_moves)
    then have col: "checkSelfCollision s h" using True by (auto simp: checkSelfCollision_def sn)
    have "inGrid (board s) h" using core_snake_inGrid [OF c, of h] True by simp
    then show ?thesis using col by simp
  qed
  then have "update s = Inr (False, ?s')" by (rule terminal_checks_any_state [OF live gh])
  moreover have "deref ?s' (getGameState ?s') = snapshotOf ?s'"
    by (simp add: publishState_snapshot)
  moreover have "GameState.gameOver (snapshotOf ?s')" by (simp add: snapshotOf_def)
  ultimately show ?thesis by simp
qed

theorem terminal_checks_witness:
  "(\<exists>s. play 2 8 4 10 RIGHT mem0 (\<lambda>_. 0)
         [SetDirection UP, Update, SetDirection LEFT, Update, SetDirection DOWN] = Inr s \<and>
     \<not> gameOver s \<and> getNextHeadPosition (takeDirection s) = Inr (1, 3) \<and>
     (1, 3) = last (snake s) \<and> (1, 3) \<in> set (snake s) \<and>
     (\<exists>s'. update s = Inr (False, s') \<and> gameOver s' \<and>
           snake s' = snake s \<and> board s' = board s \<and> score s' = score s \<and>
           food s' = food s \<and> foodExists s' = foodExists s \<and>
           deref s' (getGameState s') = snapshotOf s' \<and>
           GameState.gameOver (deref s' (getGameState s')))) \<and>
   (\<exists>s0 sw. initializeBoard 3 3 1 10 RIGHT (construct mem0 (\<lambda>_. 5)) = Inr s0 \<and>
     placeWalls (Suc 0) s0 = Inr sw \<and> \<not> gameOver (setDirection DOWN sw) \<and>
     getNextHeadPosition (takeDirection (setDirection DOWN sw)) = Inr (2, 1) \<and>
     isInBounds (setDirection DOWN sw) 2 1 \<and>
     readCell (board (setDirection DOWN sw)) (2, 1) = Inr WALL \<and>
     (\<exists>s'. update (setDirection DOWN sw) = Inr (False, s') \<and> gameOver s' \<and>
           snake s' = snake (setDirection DOWN sw) \<and> board s' = board (setDirection DOWN sw) \<and>
           score s' = score (setDirection DOWN sw) \<and>
           deref s' (getGameState s') = snapshotOf s' \<and>
           GameState.gameOver (deref s' (getGameState s'))))"
proof
  obtain s where p: "play 2 8 4 10 RIGHT mem0 (\<lambda>_. 0)
         [SetDirection UP, Update, SetDirection LEFT, Update, SetDirection DOWN] = Inr s"
    and live: "\<not> gameOver s"
    and sn: "snake s = [(0, 3), (0, 4), (1, 4), (1, 3)]"
    and gh: "getNextHeadPosition (takeDirection s) = Inr (1, 3)"
    using example_onto_tail by blast
  have tl: "(1, 3) = last (snake s)" "(1, 3) \<in> set (snake s)" by (simp_all add: sn)
  have hit: "\<not> isInBounds s (fst (1, 3)) (snd (1, 3)) \<or> readCell (board s) (1, 3) = Inr WALL \<or>
      inGrid (board s) (1, 3) \<and> checkSelfCollision s (1, 3) \<or>
      RIGHT \<noteq> NONE \<and> (0::int) < 4 \<and>
        play 2 8 4 10 RIGHT mem0 (\<lambda>_. 0)
         [SetDirection UP, Update, SetDirection LEFT, Update, SetDirection DOWN] = Inr s \<and>
        (1, 3) \<in> set (snake s)"
    using p tl by simp
  from terminal_checks [OF live gh hit] p live gh tl
  show "\<exists>s. play 2 8 4 10 RIGHT mem0 (\<lambda>_. 0)
         [SetDirection UP, Update, SetDirection LEFT, Update, SetDirection DOWN] = Inr s \<and>
     \<not> gameOver s \<and> getNextHeadPosition (takeDirection s) = Inr (1, 3) \<and>
     (1, 3) = last (snake s) \<and> (1, 3) \<in> set (snake s) \<and>
     (\<exists>s'. update s = Inr (False, s') \<and> gameOver s' \<and>
           snake s' = snake s \<and> board s' = board s \<and> score s' = score s \<and>
           food s' = food s \<and> foodExists s' = foodExists s \<and>
           deref s' (getGameState s') = snapshotOf s' \<and>
           GameState.gameOver (deref s' (getGameState s')))"
    by blast
next
  obtain s0 sw where i: "initializeBoard 3 3 1 10 RIGHT (construct mem0 (\<lambda>_. 5)) = Inr s0"
    and w: "placeWalls (Suc 0) s0 = Inr sw" and live: "\<not> gameOver (setDirection DOWN sw)"
    and gh: "getNextHeadPosition (takeDirection (setDirection DOWN sw)) = Inr (2, 1)"
    and ib: "isInBounds (setDirection DOWN sw) 2 1"
    and rd: "readCell (board (setDirection DOWN sw)) (2, 1) = Inr WALL"
    using example_wall_ahead by blast
  have hit: "\<not> isInBounds (setDirection DOWN sw) (fst (2, 1)) (snd (2, 1)) \<or>
      readCell (board (setDirection DOWN sw)) (2, 1) = Inr WALL \<or>
      inGrid (board (setDirection DOWN sw)) (2, 1) \<and>
        checkSelfCollision (setDirection DOWN sw) (2, 1) \<or>
      RIGHT \<noteq> NONE \<and> (0::int) < 1 \<and>
        play 3 3 1 10 RIGHT mem0 (\<lambda>_. 5) [] = Inr (setDirection DOWN sw) \<and>
        (2, 1) \<in> set (snake (setDirection DOWN sw))"
    using rd by simp
  from terminal_checks [OF live gh hit] i w live gh ib rd
  show "\<exists>s0 sw. initializeBoard 3 3 1 10 RIGHT (construct mem0 (\<lambda>_. 5)) = Inr s0 \<and>
     placeWalls (Suc 0) s0 = Inr sw \<and> \<not> gameOver (setDirection DOWN sw) \<and>
     getNextHeadPosition (takeDirection (setDirection DOWN sw)) = Inr (2, 1) \<and>
     isInBounds (setDirection DOWN sw) 2 1 \<and>
     readCell (board (setDirection DOWN sw)) (2, 1) = Inr WALL \<and>
     (\<exists>s'. update (setDirection DOWN sw) = Inr (False, s') \<and> gameOver s' \<and>
           snake s' = snake (setDirection DOWN sw) \<and> board s' = board (setDirection DOWN sw) \<and>
           score s' = score (setDirection DOWN sw) \<and>
           deref s' (getGameState s') = snapshotOf s' \<and>
           GameState.gameOver (deref s' (getGameState s')))"
    by blast
qed

subsection \<open>Eating\<close>

text \<open>C4: when the next head position is the food, the update succeeds (unless the score
  leaves the range of \<open>int\<close>) and the snapshot it publishes has the score raised by
  \<open>pointsPerFood\<close>, the snake longer by the new head, and a new food on a cell that was
  \<open>EMPTY\<close> before and is no cell of the snake; the food is absent only when no cell of the
  board is \<open>EMPTY\<close>, and then the game is over.\<close>

theorem eating_tick:
  assumes "d \<noteq> NONE" and "0 < len" and "play nrows ncols len ppf d mem seed cs = Inr s"
    and live: "\<not> gameOver s"
    and gh: "getNextHeadPosition (takeDirection s) = Inr h"
    and fe: "foodExists s" and hf: "h = food s"
    and range: "INT_MIN \<le> score s + pointsPerFood s" "score s + pointsPerFood s \<le> INT_MAX"
  shows "\<exists>alive s'. update s = Inr (alive, s') \<and>
           (let g = deref s' (getGameState s') in
              GameState.score g = score s + pointsPerFood s \<and>
              GameState.snakeLength g = int (length (snake s)) + 1 \<and>
              GameState.snake g = h # snake s \<and>
              (GameState.foodExists g \<longrightarrow>
                 readCell (GameState.board g) (GameState.food g) = Inr FOOD \<and>
                 readCell (board s) (GameState.food g) = Inr EMPTY \<and>
                 GameState.food g \<notin> set (GameState.snake g) \<and>
                 (\<forall>p. readCell (GameState.board g) p = Inr FOOD \<longrightarrow> p = GameState.food g)) \<and>
              (\<not> GameState.foodExists g \<longrightarrow>
                 (\<forall>p. readCell (GameState.board g) p \<noteq> Inr EMPTY \<and>
                      readCell (GameState.board g) p \<noteq> Inr FOOD)) \<and>
              alive = GameState.foodExists g \<and> GameState.gameOver g = (\<not> alive))"
proof -
  let ?t = "takeDirection s"
  have st: "steady ?t"
    using play_engineInv [OF assms(1-3)] by (simp add: engineInv_steady steady_takeDirection)
  then have c: "core ?t" and gr: "snakeGrowth ?t = 0" by (simp_all add: steady_def)
  have shape: "wellShaped (board ?t) (rows ?t) (cols ?t)" using c by (rule core_shape)
  have ig: "inGrid (board ?t) h" using core_food_inGrid [OF c] fe hf by simp
  have cf: "cell (board ?t) h = FOOD" using core_food_cell [OF c ig] fe hf by simp
  have hn: "h \<notin> set (snake ?t)" using core_snake_cell [OF c ig] cf by simp
  have ib: "isInBounds ?t (fst h) (snd h)" using inGrid_isInBounds [OF shape, of h] ig by simp
  have col: "\<not> checkSelfCollision ?t h"
    using hn by (auto simp: checkSelfCollision_def dest: in_set_dropD)
  let ?s1 = "?t\<lparr>snakeGrowth := 1, score := score s + pointsPerFood s, foodExists := False\<rparr>"
  have e: "eatFood h ?t = Inr ?s1"
    using fe hf range gr by (simp add: eatFood_def)
  obtain b1 where w: "writeCell (board s) h SNAKE = Inr b1"
    using writeCell_total [of "board s" h] ig by auto
  let ?s2 = "?s1\<lparr>snake := h # snake s, board := b1, snakeGrowth := 0\<rparr>"
  have m: "moveSnake h ?s1 = Inr ?s2" using w by (simp add: moveSnake_def)
  have c2: "core ?s2"
    using move_eating_core [OF c ig hn _ _ m] fe hf by simp
  obtain s3 where p: "placeRandomFood ?s2 = Inr s3" and c3: "core s3"
    and sn3: "snake s3 = snake ?s2"
    and ex: "foodExists s3 \<Longrightarrow> cell b1 (food s3) = EMPTY \<and> inGrid b1 (food s3)"
    and nex: "\<not> foodExists s3 \<Longrightarrow> s3 = ?s2 \<and> (\<forall>p. inGrid b1 p \<longrightarrow> cell b1 p \<noteq> EMPTY)"
    using placeRandomFood_core [OF c2] by auto
  have f3: "score s3 = score s + pointsPerFood s" "snakeGrowth s3 = 0"
    using p by (auto simp: placeRandomFood_def Let_def split: sum.splits if_splits)
  define s' where "s' = publishState (if foodExists s3 then s3 else s3\<lparr>gameOver := True\<rparr>)"
  have u: "update s = Inr (foodExists s3, s')"
    using live gh ib ig cf col e m p f3
    by (simp add: update_def readCell_def endGame_def s'_def)
  have g3: "gameOver s3 = False"
    using p live by (auto simp: placeRandomFood_def Let_def split: sum.splits if_splits)
  have g: "deref s' (getGameState s') =
      (snapshotOf s3)\<lparr>GameState.gameOver := \<not> foodExists s3\<rparr>"
    using g3 by (simp add: s'_def publishState_snapshot snapshotOf_def)
  have old: "readCell (board s) q = Inr EMPTY" if "inGrid b1 q" "cell b1 q = EMPTY" for q
    using that writeCell_inGrid [OF w, of q] writeCell_cell [OF w, of q]
    by (auto simp: readCell_def split: if_splits)
  have food_ok: "readCell (board s3) (food s3) = Inr FOOD \<and>
      readCell (board s) (food s3) = Inr EMPTY \<and> food s3 \<notin> set (h # snake s) \<and>
      (\<forall>p. readCell (board s3) p = Inr FOOD \<longrightarrow> p = food s3)" if x: "foodExists s3"
  proof -
    have i3: "inGrid (board s3) (food s3)" using core_food_inGrid [OF c3 x] .
    have "cell (board s3) (food s3) = FOOD" using core_food_cell [OF c3 i3] x by simp
    moreover have "food s3 \<notin> set (snake s3)"
      using core_snake_cell [OF c3 i3] calculation by simp
    moreover have "p = food s3" if "readCell (board s3) p = Inr FOOD" for p
      using that core_food_cell [OF c3, of p] by (auto simp: readCell_def split: if_splits)
    ultimately show ?thesis using ex [OF x] old [of "food s3"] i3 sn3
      by (simp add: readCell_def)
  qed
  have none_ok: "readCell (board s3) p \<noteq> Inr EMPTY \<and> readCell (board s3) p \<noteq> Inr FOOD"
    if x: "\<not> foodExists s3" for p
  proof -
    have "board s3 = b1" using nex [OF x] by simp
    moreover have "inGrid b1 p \<Longrightarrow> cell b1 p \<noteq> EMPTY" using nex [OF x] by blast
    ultimately show ?thesis using core_food_cell [OF c3, of p] x
      by (simp add: readCell_def)
  qed
  show ?thesis
    using u food_ok none_ok f3 sn3
    by (simp add: g Let_def snapshotOf_def)
qed

theorem eating_tick_witness:
  "\<exists>s. play 3 3 1 10 RIGHT mem0 (\<lambda>_. 4) [] = Inr s \<and> \<not> gameOver s \<and>
     getNextHeadPosition (takeDirection s) = Inr (1, 2) \<and> foodExists s \<and> (1, 2) = food s \<and>
     INT_MIN \<le> score s + pointsPerFood s \<and> score s + pointsPerFood s \<le> INT_MAX \<and>
     (\<exists>alive s'. update s = Inr (alive, s') \<and>
           (let g = deref s' (getGameState s') in
              GameState.score g = score s + pointsPerFood s \<and>
              GameState.snakeLength g = int (length (snake s)) + 1 \<and>
              GameState.snake g = (1, 2) # snake s \<and>
              (GameState.foodExists g \<longrightarrow>
                 readCell (GameState.board g) (GameState.food g) = Inr FOOD \<and>
                 readCell (board s) (GameState.food g) = Inr EMPTY \<and>
                 GameState.food g \<notin> set (GameState.snake g) \<and>
                 (\<forall>p. readCell (GameState.board g) p = Inr FOOD \<longrightarrow> p = GameState.food g)) \<and>
              (\<not> GameState.foodExists g \<longrightarrow>
                 (\<forall>p. readCell (GameState.board g) p \<noteq> Inr EMPTY \<and>
                      readCell (GameState.board g) p \<noteq> Inr FOOD)) \<and>
              alive = GameState.foodExists g \<and> GameState.gameOver g = (\<not> alive)))"
proof -
  obtain s where p: "play 3 3 1 10 RIGHT mem0 (\<lambda>_. 4) [] = Inr s"
    and live: "\<not> gameOver s"
    and f: "snake s = [(1, 1)]" "nextDirection s = RIGHT"
      "currentDirection s = RIGHT" "atomicDirection s = NONE"
    and fe: "foodExists s" and hf: "(1, 2) = food s"
    and sc: "score s = 0" "pointsPerFood s = 10"
    using example_food_ahead by auto
  have d: "RIGHT \<noteq> NONE" and l: "(0::int) < 1" by simp_all
  have gh: "getNextHeadPosition (takeDirection s) = Inr (1, 2)"
    by (simp add: getNextHeadPosition_def takeDirection_directions f)
  have r: "INT_MIN \<le> score s + pointsPerFood s" "score s + pointsPerFood s \<le> INT_MAX"
    by (simp_all add: sc INT_MIN_def INT_MAX_def)
  from eating_tick [OF d l p live gh fe hf r] p live gh fe hf r show ?thesis by blast
qed

text \<open>C4, without the bound on the score: on the 1 x 5 board with
  \<open>pointsPerFood = 2147483647\<close> the second eating update would have to publish the
  score 4294967294, which no \<open>int\<close> holds; the addition overflows and no such snapshot
  is published.\<close>

theorem eating_tick_overflow:
  "\<exists>s. play 1 5 1 2147483647 RIGHT mem0 (\<lambda>_. 2) [Update] = Inr s \<and> \<not> gameOver s \<and>
     foodExists s \<and> getNextHeadPosition (takeDirection s) = Inr (food s) \<and>
     INT_MAX < score s + pointsPerFood s \<and> update s = Inl SignedOverflow \<and>
     \<not> (\<exists>alive s'. update s = Inr (alive, s') \<and>
           GameState.score (deref s' (getGameState s')) = score s + pointsPerFood s)"
proof -
  obtain s0 s1 where i: "initializeBoard 1 5 1 2147483647 RIGHT (construct mem0 (\<lambda>_. 2)) = Inr s0"
    and u: "update s0 = Inr (True, s1)"
    and f: "\<not> gameOver s1" "foodExists s1"
      "getNextHeadPosition (takeDirection s1) = Inr (food s1)"
      "score s1 + pointsPerFood s1 = 4294967294" "update s1 = Inl SignedOverflow"
    using example_overflow by blast
  have "play 1 5 1 2147483647 RIGHT mem0 (\<lambda>_. 2) [Update] = Inr s1"
    using i u by (simp add: play_def)
  then show ?thesis using f by (auto simp: INT_MAX_def)
qed

subsection \<open>The first snapshot\<close>

text \<open>C5: \<open>initializeBoard(20, 40, 3, pointsPerFood, RIGHT)\<close> succeeds, whatever the
  generator delivers, and publishes a snapshot with the snake at (10, 20), (10, 19),
  (10, 18), head first, exactly one \<open>FOOD\<close> cell, score 0 and \<open>gameOver\<close> false. For
  every board on which the call succeeds with direction \<open>RIGHT\<close>, segment \<open>i\<close> is at
  \<open>(rows / 2, cols / 2 - i)\<close>.\<close>

theorem initial_snapshot:
  "(\<exists>s0. initializeBoard 20 40 3 ppf RIGHT (construct mem seed) = Inr s0 \<and>
      (let g = deref s0 (getGameState s0) in
         hd (GameState.snake g) = (10, 20) \<and>
         GameState.snake g = [(10, 20), (10, 19), (10, 18)] \<and>
         (\<exists>!p. readCell (GameState.board g) p = Inr FOOD) \<and>
         GameState.score g = 0 \<and> \<not> GameState.gameOver g)) \<and>
   (\<forall>nrows ncols len s0 i.
      initializeBoard nrows ncols len ppf RIGHT (construct mem seed) = Inr s0 \<longrightarrow>
      0 \<le> i \<longrightarrow> i < len \<longrightarrow>
      GameState.snake (deref s0 (getGameState s0)) ! nat i = (nrows div 2, ncols div 2 - i))"
proof
  have d: "RIGHT \<noteq> NONE" by simp
  have "\<exists>s0. initializeBoard 20 40 3 ppf RIGHT (construct mem seed) = Inr s0"
    by (rule initializeBoard_total) (simp_all add: isInBounds_def)
  then obtain s0 where i: "initializeBoard 20 40 3 ppf RIGHT (construct mem seed) = Inr s0"
    by blast
  have l: "(0::int) < 3" by simp
  note f = initializeBoard_steady [OF i d l]
  have u3: "[0..<3] = [0, 1, 2::nat]" by (simp add: upt_rec)
  have e: "engineInv s0" and sc: "score s0 = 0" "\<not> gameOver s0" "rows s0 = 20" "cols s0 = 40"
    using f by simp_all
  have sn: "snake s0 = [(10, 20), (10, 19), (10, 18)]"
    using f by (simp add: u3)
  have full: "\<not> foodExists s0 \<Longrightarrow> inGrid (board s0) p \<Longrightarrow> p \<in> set (snake s0)" for p
    using f by blast
  have c: "core s0" using e by (rule engineInv_core)
  have g: "deref s0 (getGameState s0) = snapshotOf s0" using e by (rule engineInv_snapshot)
  have z: "inGrid (board s0) (0, 0)" using inGrid_wellShaped [OF core_shape [OF c]] sc by simp
  have fe: "foodExists s0"
  proof (rule ccontr)
    assume "\<not> foodExists s0"
    then have "(0, 0) \<in> set (snake s0)" using z by (rule full)
    then show False by (simp add: sn)
  qed
  have "\<exists>!p. readCell (board s0) p = Inr FOOD"
  proof
    show "readCell (board s0) (food s0) = Inr FOOD"
      using core_food_inGrid [OF c fe] core_food_cell [OF c, of "food s0"] fe
      by (simp add: readCell_def)
    show "p = food s0" if "readCell (board s0) p = Inr FOOD" for p
      using that core_food_cell [OF c, of p] by (auto simp: readCell_def split: if_splits)
  qed
  then show "\<exists>s0. initializeBoard 20 40 3 ppf RIGHT (construct mem seed) = Inr s0 \<and>
      (let g = deref s0 (getGameState s0) in
         hd (GameState.snake g) = (10, 20) \<and>
         GameState.snake g = [(10, 20), (10, 19), (10, 18)] \<and>
         (\<exists>!p. readCell (GameState.board g) p = Inr FOOD) \<and>
         GameState.score g = 0 \<and> \<not> GameState.gameOver g)"
    using i sn sc by (simp add: g snapshotOf_def)
next
  show "\<forall>nrows ncols len s0 i.
      initializeBoard nrows ncols len ppf RIGHT (construct mem seed) = Inr s0 \<longrightarrow>
      0 \<le> i \<longrightarrow> i < len \<longrightarrow>
      GameState.snake (deref s0 (getGameState s0)) ! nat i = (nrows div 2, ncols div 2 - i)"
  proof (intro allI impI)
    fix nrows ncols len s0 and i :: int
    assume i: "initializeBoard nrows ncols len ppf RIGHT (construct mem seed) = Inr s0"
      and r: "0 \<le> i" "i < len"
    have d: "RIGHT \<noteq> NONE" by simp
    have l: "0 < len" using r by simp
    note f = initializeBoard_steady [OF i d l]
    have g: "deref s0 (getGameState s0) = snapshotOf s0"
      using f by (simp add: engineInv_snapshot)
    have "snake s0 ! nat i = (nrows div 2, ncols div 2 - i)"
      using f r by simp
    then show "GameState.snake (deref s0 (getGameState s0)) ! nat i =
        (nrows div 2, ncols div 2 - i)"
      by (simp add: g snapshotOf_def)
  qed
qed

theorem initial_snapshot_witness:
  "\<exists>s0. initializeBoard 3 3 1 10 RIGHT (construct mem0 (\<lambda>_. 4)) = Inr s0 \<and> (0::int) \<le> 0 \<and>
     (0::int) < 1 \<and>
     GameState.snake (deref s0 (getGameState s0)) ! nat 0 = (3 div 2, 3 div 2 - 0)"
proof -
  obtain s0 where i: "initializeBoard 3 3 1 10 RIGHT (construct mem0 (\<lambda>_. 4)) = Inr s0"
    using example_food_ahead by (auto simp: play_Nil)
  from initial_snapshot [of 10 mem0 "\<lambda>_. 4", THEN conjunct2, rule_format, OF i, of 0] i
  show ?thesis by simp
qed

subsection \<open>A reversal is dropped\<close>

text \<open>C6: in a reachable state with current direction \<open>d\<close>, a pending request for the
  opposite of \<open>d\<close> is dropped by the next \<open>update\<close>: the step is taken in direction
  \<open>d\<close>, current and next direction are \<open>d\<close> afterwards, and on a live game the call
  does exactly what it does with no request pending.\<close>

theorem reversal_discarded:
  assumes "d0 \<noteq> NONE" and "0 < len" and "play nrows ncols len ppf d0 mem seed cs = Inr s"
    and d: "currentDirection s = d"
    and u: "update (setDirection (opposite d) s) = Inr (alive, s')"
  shows "currentDirection s' = d \<and> nextDirection s' = d \<and>
         (\<not> gameOver s \<longrightarrow>
            getNextHeadPosition (takeDirection (setDirection (opposite d) s)) =
              Inr (stepPos d (hd (snake s))) \<and>
            atomicDirection s' = NONE \<and>
            update (setDirection (opposite d) s) = update (setDirection NONE s))"
proof -
  have st: "steady s"
    using play_engineInv [OF assms(1-3)] by (simp add: engineInv_steady)
  then have n: "nextDirection s = d" and dn: "currentDirection s \<noteq> NONE"
    and ne: "snake s \<noteq> []"
    using d core_snake [of s] by (auto simp: steady_def)
  let ?r = "setDirection (opposite d) s"
  have td: "takeDirection ?r = takeDirection (setDirection NONE s)"
    using takeDirection_reversal [OF dn] d by simp
  have nd: "nextDirection (takeDirection ?r) = d"
    unfolding td by (simp add: takeDirection_directions setDirection_def n)
  show ?thesis
  proof (cases "gameOver s")
    case True
    then have "s' = ?r" using u by (simp add: update_def setDirection_def)
    then show ?thesis using True d n by (simp add: setDirection_def)
  next
    case False
    then have live: "\<not> gameOver ?r" by (simp add: setDirection_def)
    have "update ?r = update (setDirection NONE s)"
      unfolding update_def td using False by (simp add: setDirection_def)
    moreover have "getNextHeadPosition (takeDirection ?r) = Inr (stepPos d (hd (snake s)))"
      using ne nd
      by (cases "snake s")
         (simp_all add: getNextHeadPosition_def takeDirection_directions(1) setDirection_def)
    ultimately show ?thesis using update_frame [OF live u] nd by simp
  qed
qed

theorem reversal_discarded_witness:
  "\<exists>s alive s'. play 3 3 1 10 RIGHT mem0 (\<lambda>_. 0) [] = Inr s \<and> currentDirection s = RIGHT \<and>
     \<not> gameOver s \<and> update (setDirection (opposite RIGHT) s) = Inr (alive, s') \<and>
     currentDirection s' = RIGHT \<and> nextDirection s' = RIGHT \<and>
     getNextHeadPosition (takeDirection (setDirection (opposite RIGHT) s)) =
       Inr (stepPos RIGHT (hd (snake s))) \<and>
     atomicDirection s' = NONE \<and>
     update (setDirection (opposite RIGHT) s) = update (setDirection NONE s)"
proof -
  obtain s alive s' where p: "play 3 3 1 10 RIGHT mem0 (\<lambda>_. 0) [] = Inr s"
    and live: "\<not> gameOver s" and c: "currentDirection s = RIGHT"
    and u: "update (setDirection (opposite RIGHT) s) = Inr (alive, s')"
    using example_reversal by blast
  have d: "RIGHT \<noteq> NONE" and l: "(0::int) < 1" by simp_all
  from reversal_discarded [OF d l p c u] p live c u show ?thesis by blast
qed

subsection \<open>After the end of the game\<close>

text \<open>C7: once \<open>gameOver\<close> is set, \<open>update\<close> returns false and leaves the whole
  engine as it is: the private data, the two buffers and the published pointer. So does
  any number of further calls.\<close>

theorem update_after_gameOver:
  "gameOver s \<Longrightarrow> update s = Inr (False, s) \<and> run (replicate n Update) s = Inr s"
proof -
  assume g: "gameOver s"
  then have u: "update s = Inr (False, s)" by (simp add: update_def)
  then have "run (replicate n Update) s = Inr s" by (induction n) simp_all
  with u show ?thesis by simp
qed

theorem update_after_gameOver_witness:
  "\<exists>s. play 3 3 1 10 RIGHT mem0 (\<lambda>_. 0) [Update, Update] = Inr s \<and> gameOver s \<and>
     update s = Inr (False, s) \<and> run (replicate 5 Update) s = Inr s"
proof -
  obtain s where p: "play 3 3 1 10 RIGHT mem0 (\<lambda>_. 0) [Update, Update] = Inr s"
    and g: "gameOver s"
    using example_two_updates by blast
  from update_after_gameOver [OF g, of 5] p g show ?thesis by blast
qed

subsection \<open>Cell lookup\<close>

text \<open>C8: \<open>getCellType\<close> returns \<open>WALL\<close> for every coordinate outside the dimensions of
  the current snapshot, in any state; in every state reached by a game it returns the
  snapshot's cell for a coordinate inside, so it never reads outside the vector.\<close>

theorem getCellType_safe:
  "(r < 0 \<or> getRows s \<le> r \<or> c < 0 \<or> getCols s \<le> c \<longrightarrow> getCellType s r c = Inr WALL) \<and>
   (\<forall>nrows ncols len ppf d mem seed cs.
      play nrows ncols len ppf d mem seed cs = Inr s \<longrightarrow>
      0 \<le> r \<longrightarrow> r < getRows s \<longrightarrow> 0 \<le> c \<longrightarrow> c < getCols s \<longrightarrow>
      getCellType s r c = Inr (cell (GameState.board (deref s (getGameState s))) (r, c)))"
proof
  show "r < 0 \<or> getRows s \<le> r \<or> c < 0 \<or> getCols s \<le> c \<longrightarrow> getCellType s r c = Inr WALL"
    by (auto simp: getCellType_def getRows_def getCols_def Let_def)
next
  show "\<forall>nrows ncols len ppf d mem seed cs.
      play nrows ncols len ppf d mem seed cs = Inr s \<longrightarrow>
      0 \<le> r \<longrightarrow> r < getRows s \<longrightarrow> 0 \<le> c \<longrightarrow> c < getCols s \<longrightarrow>
      getCellType s r c = Inr (cell (GameState.board (deref s (getGameState s))) (r, c))"
  proof (intro allI impI)
    fix nrows ncols len ppf d mem seed cs
    assume p: "play nrows ncols len ppf d mem seed cs = Inr s"
      and b: "0 \<le> r" "r < getRows s" "0 \<le> c" "c < getCols s"
    have t: "tidy s" using play_tidy [OF p] by simp
    note g = tidy_snapshot [OF t]
    have b': "0 \<le> r" "r < rows s" "0 \<le> c" "c < cols s" using b by (simp_all add: g)
    have "wellShaped (board s) (rows s) (cols s)" using t by (simp add: tidy_def)
    then have "inGrid (board s) (r, c)" using b' by (simp add: inGrid_wellShaped)
    then show "getCellType s r c =
        Inr (cell (GameState.board (deref s (getGameState s))) (r, c))"
      using b'
      by (simp add: getCellType_def getGameState_def g(1) snapshotOf_def readCell_def)
  qed
qed

theorem getCellType_safe_witness:
  "\<exists>s. play 3 3 1 10 RIGHT mem0 (\<lambda>_. 0) [Update] = Inr s \<and> (0::int) \<le> 1 \<and> 1 < getRows s \<and>
     (0::int) \<le> 2 \<and> 2 < getCols s \<and>
     getCellType s 1 2 = Inr (cell (GameState.board (deref s (getGameState s))) (1, 2)) \<and>
     (5 < 0 \<or> getRows s \<le> 5 \<or> (0::int) < 0 \<or> getCols s \<le> 0) \<and>
     getCellType s 5 0 = Inr WALL"
proof -
  obtain s where p: "play 3 3 1 10 RIGHT mem0 (\<lambda>_. 0) [Update] = Inr s"
    and f: "rows s = 3" "cols s = 3"
    using example_one_update by blast
  have t: "tidy s" using play_tidy [OF p] by simp
  have g: "getRows s = 3" "getCols s = 3" using tidy_snapshot [OF t] f by simp_all
  have b: "(0::int) \<le> 1" "1 < getRows s" "(0::int) \<le> 2" "2 < getCols s"
    and o: "5 < 0 \<or> getRows s \<le> 5 \<or> (0::int) < 0 \<or> getCols s \<le> 0"
    by (simp_all add: g)
  from getCellType_safe [of 1 s 2, THEN conjunct2, rule_format, OF p b]
    getCellType_safe [of 5 s 0, THEN conjunct1, rule_format, OF o] p b o
  show ?thesis by blast
qed

subsection \<open>No walls\<close>

text \<open>C9: in every state reached by a game no cell of the board, nor of the board of
  either buffer, holds \<open>WALL\<close>; \<open>getCellType\<close> returns \<open>WALL\<close> only outside the
  dimensions; and when \<open>update\<close> ends a live game, the next head is outside the board,
  or on the snake, or no food could be placed because no cell is \<open>EMPTY\<close>.\<close>

theorem no_wall_cells:
  assumes p: "play nrows ncols len ppf d mem seed cs = Inr s"
  shows "(\<forall>q. readCell (board s) q \<noteq> Inr WALL) \<and>
     (\<forall>a q. readCell (GameState.board (deref s a)) q \<noteq> Inr WALL) \<and>
     (\<forall>r c. getCellType s r c = Inr WALL \<longrightarrow> r < 0 \<or> getRows s \<le> r \<or> c < 0 \<or> getCols s \<le> c) \<and>
     (\<forall>s'. \<not> gameOver s \<longrightarrow> update s = Inr (False, s') \<longrightarrow>
        (\<exists>h. getNextHeadPosition (takeDirection s) = Inr h \<and>
           (\<not> isInBounds s (fst h) (snd h) \<or> checkSelfCollision (takeDirection s) h \<or>
            \<not> foodExists s' \<and> (\<forall>q. readCell (board s') q \<noteq> Inr EMPTY))))"
proof -
  have t: "tidy s" using play_tidy [OF p] by simp
  then have ws: "wellShaped (board s) (rows s) (cols s)" and nw: "noWall (board s)"
    and hp: "\<And>a. noWall (GameState.board (heap s a))"
    by (simp_all add: tidy_def)
  note g = tidy_snapshot [OF t]
  have 1: "\<forall>q. readCell (board s) q \<noteq> Inr WALL" using nw by (simp add: noWall_def)
  have 2: "\<forall>a q. readCell (GameState.board (deref s a)) q \<noteq> Inr WALL"
    using hp by (simp add: noWall_def deref_def)
  have 3: "r < 0 \<or> getRows s \<le> r \<or> c < 0 \<or> getCols s \<le> c"
    if "getCellType s r c = Inr WALL" for r c
    using that 2 [rule_format, of "currentState s" "(r, c)"]
    by (auto simp: getCellType_def getRows_def getCols_def Let_def split: if_splits)
  have 4: "\<exists>h. getNextHeadPosition (takeDirection s) = Inr h \<and>
           (\<not> isInBounds s (fst h) (snd h) \<or> checkSelfCollision (takeDirection s) h \<or>
            \<not> foodExists s' \<and> (\<forall>q. readCell (board s') q \<noteq> Inr EMPTY))"
    if live: "\<not> gameOver s" and u: "update s = Inr (False, s')" for s'
    using live u
  proof (cases rule: update_cases)
    case (terminal h)
    then show ?thesis using 1 by (auto simp: isInBounds_def)
  next
    case (moved h s1 s2 s3)
    have b1: "wellShaped (board s1) (rows s) (cols s) \<and> noWall (board s1)"
      and r1: "rows s1 = rows s" "cols s1 = cols s"
      using eatFood_cases [OF moved(6)] ws nw by auto
    note b2 = moveSnake_board [OF moved(7) b1]
    have nf3: "\<not> foodExists s3" using moved(9) by simp
    then have nf2: "\<not> foodExists s2" and pl: "placeRandomFood s2 = Inr s3"
      using moved(8) by (auto split: if_splits)
    obtain es where ce: "collectEmpty (board s2) (allCells (rows s2) (cols s2)) = Inr es"
      and e: "es = []" and s3: "s3 = s2\<lparr>foodExists := False\<rparr>"
      using placeRandomFood_cases [OF pl] nf3 by auto
    have sh2: "wellShaped (board s2) (rows s2) (cols s2)" using b2 r1 by simp
    have full: "readCell (board s2) q \<noteq> Inr EMPTY" for q
    proof (cases "inGrid (board s2) q")
      case True
      then have "q \<in> set (allCells (rows s2) (cols s2))" by (simp add: allCells_inGrid [OF sh2])
      moreover have "filter (\<lambda>p. cell (board s2) p = EMPTY) (allCells (rows s2) (cols s2)) = []"
        using collectEmpty_Inr [OF ce] e by simp
      ultimately have "cell (board s2) q \<noteq> EMPTY" by (simp add: filter_empty_conv)
      then show ?thesis by (simp add: readCell_def)
    next
      case False
      then show ?thesis by (simp add: readCell_def)
    qed
    have "\<not> foodExists s' \<and> (\<forall>q. readCell (board s') q \<noteq> Inr EMPTY)"
      using full by (simp add: moved(10) s3)
    then show ?thesis using moved(1) by blast
  qed
  show ?thesis using 1 2 3 4 by blast
qed

theorem no_wall_cells_witness:
  "\<exists>s s'. play 3 3 1 10 RIGHT mem0 (\<lambda>_. 0) [Update] = Inr s \<and> \<not> gameOver s \<and>
     update s = Inr (False, s') \<and> getCellType s 5 0 = Inr WALL \<and>
     (\<forall>q. readCell (board s) q \<noteq> Inr WALL) \<and>
     (\<forall>a q. readCell (GameState.board (deref s a)) q \<noteq> Inr WALL) \<and>
     ((5::int) < 0 \<or> getRows s \<le> 5 \<or> (0::int) < 0 \<or> getCols s \<le> 0) \<and>
     (\<exists>h. getNextHeadPosition (takeDirection s) = Inr h \<and>
           (\<not> isInBounds s (fst h) (snd h) \<or> checkSelfCollision (takeDirection s) h \<or>
            \<not> foodExists s' \<and> (\<forall>q. readCell (board s') q \<noteq> Inr EMPTY)))"
proof -
  obtain s where p: "play 3 3 1 10 RIGHT mem0 (\<lambda>_. 0) [Update] = Inr s"
    and live: "\<not> gameOver s"
    and f: "snake s = [(1, 2)]" "rows s = 3" "cols s = 3" "nextDirection s = RIGHT"
      "currentDirection s = RIGHT" "atomicDirection s = NONE"
    using example_one_update by blast
  have t: "tidy s" using play_tidy [OF p] by simp
  have g: "getRows s = 3" "getCols s = 3" using tidy_snapshot [OF t] f by simp_all
  have u: "update s = Inr (False, publishState (takeDirection s\<lparr>gameOver := True\<rparr>))"
    using live
    by (simp add: update_def getNextHeadPosition_def takeDirection_directions
        isValidDirectionChange_def isInBounds_def endGame_def f)
  have w: "getCellType s 5 0 = Inr WALL"
    using g by (simp add: getCellType_def getRows_def getCols_def Let_def)
  note n = no_wall_cells [OF p]
  from n [THEN conjunct1] n [THEN conjunct2, THEN conjunct1]
    n [THEN conjunct2, THEN conjunct2, THEN conjunct1, rule_format, OF w]
    n [THEN conjunct2, THEN conjunct2, THEN conjunct2, rule_format, OF live u]
    p live u w
  show ?thesis by blast
qed

subsection \<open>Score and length\<close>

text \<open>C10: after \<open>initializeBoard\<close> with a starting length that is not negative and
  any calls that return, the published score is \<open>pointsPerFood\<close> times the number of
  foods eaten, the published snake length is the starting length plus that number, and no
  growth is pending; with a positive \<open>pointsPerFood\<close> the length is the starting length
  plus \<open>score / pointsPerFood\<close>. With one of the four directions and a snake of at least
  one cell, the calls return unless an update would take the score out of the range of
  \<open>int\<close>.\<close>

theorem score_and_length:
  assumes i: "initializeBoard nrows ncols len ppf d (construct mem seed) = Inr s0"
    and r: "run cs s0 = Inr s" and l: "0 \<le> len"
  shows "(let g = deref s (getGameState s); n = int (foodsEaten cs s0) in
           GameState.score g = ppf * n \<and> GameState.snakeLength g = len + n \<and>
           snakeGrowth s = 0 \<and>
           (0 < ppf \<longrightarrow> GameState.snakeLength g = len + GameState.score g div ppf)) \<and>
         (d \<noteq> NONE \<and> 0 < len \<longrightarrow>
            (\<forall>cs'. (\<exists>s'. run cs' s0 = Inr s') \<or> run cs' s0 = Inl SignedOverflow))"
proof
  note f = initializeBoard_tidy [OF i]
  then have "snakeGrowth s0 = 0" by simp
  note c = run_counts [OF this r]
  have "tidy s" using run_tidy [OF _ r] f by simp
  then have g: "deref s (getGameState s) = snapshotOf s"
    by (simp add: tidy_def published_def)
  have sc: "score s = ppf * int (foodsEaten cs s0)" using c f by simp
  have ln: "int (length (snake s)) = len + int (foodsEaten cs s0)" using c f l by simp
  show "let g = deref s (getGameState s); n = int (foodsEaten cs s0) in
           GameState.score g = ppf * n \<and> GameState.snakeLength g = len + n \<and>
           snakeGrowth s = 0 \<and>
           (0 < ppf \<longrightarrow> GameState.snakeLength g = len + GameState.score g div ppf)"
    using sc ln c by (simp add: g snapshotOf_def Let_def)
next
  show "d \<noteq> NONE \<and> 0 < len \<longrightarrow>
            (\<forall>cs'. (\<exists>s'. run cs' s0 = Inr s') \<or> run cs' s0 = Inl SignedOverflow)"
  proof (intro impI allI)
    fix cs'
    assume "d \<noteq> NONE \<and> 0 < len"
    then have "engineInv s0" using initializeBoard_steady [OF i] by simp
    then show "(\<exists>s'. run cs' s0 = Inr s') \<or> run cs' s0 = Inl SignedOverflow"
      by (rule run_total)
  qed
qed

theorem score_and_length_witness:
  "\<exists>s0 s. initializeBoard 3 3 1 10 RIGHT (construct mem0 (\<lambda>_. 4)) = Inr s0 \<and>
     run [Update] s0 = Inr s \<and> (0::int) \<le> 1 \<and> (0::int) < 10 \<and> foodsEaten [Update] s0 = 1 \<and>
     (let g = deref s (getGameState s); n = int (foodsEaten [Update] s0) in
           GameState.score g = 10 * n \<and> GameState.snakeLength g = 1 + n \<and>
           snakeGrowth s = 0 \<and>
           (0 < (10::int) \<longrightarrow> GameState.snakeLength g = 1 + GameState.score g div 10))"
proof -
  obtain s0 s where i: "initializeBoard 3 3 1 10 RIGHT (construct mem0 (\<lambda>_. 4)) = Inr s0"
    and r: "run [Update] s0 = Inr s" and n: "foodsEaten [Update] s0 = 1"
    using example_eaten by blast
  have l: "(0::int) \<le> 1" by simp
  from score_and_length [OF i r l, THEN conjunct1] i r n show ?thesis by auto
qed

text \<open>C10, for every run of updates: on the 1 x 5 board with
  \<open>pointsPerFood = 2147483647\<close> the first two updates both eat, and twice
  \<open>pointsPerFood\<close> is more than the largest \<open>int\<close>; the second update overflows the
  score and publishes no snapshot with the score of two foods.\<close>

theorem score_overflow:
  "\<exists>s0 s1. initializeBoard 1 5 1 2147483647 RIGHT (construct mem0 (\<lambda>_. 2)) = Inr s0 \<and>
     (0::int) < 2147483647 \<and> (0::int) \<le> 1 \<and>
     update s0 = Inr (True, s1) \<and> eats s0 \<and> eats s1 \<and>
     update s1 = Inl SignedOverflow \<and> run [Update, Update] s0 = Inl SignedOverflow \<and>
     INT_MAX < 2147483647 * (2::int)"
proof -
  obtain s0 s1 where i: "initializeBoard 1 5 1 2147483647 RIGHT (construct mem0 (\<lambda>_. 2)) = Inr s0"
    and u: "update s0 = Inr (True, s1)" and e: "eats s0" "eats s1"
    and o: "update s1 = Inl SignedOverflow"
    using example_overflow by blast
  have "run [Update, Update] s0 = Inl SignedOverflow" using u o by simp
  then show ?thesis using i u e o by (auto simp: INT_MAX_def)
qed

end
